theory Spec2Isabelle
  imports Main
begin
section \<open>ETag and version conversion (MobileServiceTable)\<close>

text \<open>
  The two characters the conversion looks at: the double quote and the backslash.
\<close>

definition dquote :: char where
  "dquote = CHR 0x22"

definition backslash :: char where
  "backslash = CHR 0x5C"

text \<open>
  \<^verbatim>\<open>version.replace(/\"/g, '\\\"')\<close>: every double quote is replaced by a backslash
  followed by a double quote.
\<close>

fun escapeQuotes :: "string \<Rightarrow> string" where
  "escapeQuotes [] = []"
| "escapeQuotes (c # cs) =
     (if c = dquote then backslash # dquote # escapeQuotes cs else c # escapeQuotes cs)"

text \<open>
  \<^verbatim>\<open>result.replace(/\\\"/g, '"')\<close>: scanning from the left, every backslash that is
  directly followed by a double quote is replaced, together with that quote, by a
  double quote; matches do not overlap.
\<close>

fun unescapeQuotes :: "string \<Rightarrow> string" where
  "unescapeQuotes (c # d # cs) =
     (if c = backslash \<and> d = dquote then dquote # unescapeQuotes cs
      else c # unescapeQuotes (d # cs))"
| "unescapeQuotes cs = cs"

text \<open>\<^verbatim>\<open>getEtagFromVersion\<close>: escape all double quotes, then wrap in double quotes.\<close>

definition getEtagFromVersion :: "string \<Rightarrow> string" where
  "getEtagFromVersion version =
     (let result = escapeQuotes version in [dquote] @ result @ [dquote])"

text \<open>
  \<^verbatim>\<open>getVersionFromEtag\<close>: the surrounding quotes are removed only when the string
  is longer than one character and both its first and its last character are double
  quotes (\<^verbatim>\<open>etag.substr(1, len - 2)\<close>); any other string is kept whole. Then the
  escaped quotes are unescaped.
\<close>

definition getVersionFromEtag :: "string \<Rightarrow> string" where
  "getVersionFromEtag etag =
     (let len = length etag;
          result = (if len > 1 \<and> etag ! 0 = dquote \<and> etag ! (len - 1) = dquote
                    then take (len - 2) (drop 1 etag) else etag)
      in unescapeQuotes result)"

text \<open>
  Every double quote of \<open>s\<close> is directly preceded by a backslash.
\<close>

definition quotesEscaped :: "string \<Rightarrow> bool" where
  "quotesEscaped s = (\<forall>i < length s. s ! i = dquote \<longrightarrow> 0 < i \<and> s ! (i - 1) = backslash)"

text \<open>The weak entity tag \<^verbatim>\<open>W/"a"\<close>.\<close>

definition weakEtag :: string where
  "weakEtag = [CHR ''W'', CHR ''/'', dquote, CHR ''a'', dquote]"
section \<open>Values, records and errors\<close>

text \<open>
  The values that records hold and that are bound to statement parameters. The source
  passes record values straight into statements and reads them back, so one type serves
  on both sides. \<open>VNull\<close> stands for both \<^verbatim>\<open>null\<close> and \<^verbatim>\<open>undefined\<close>: the source tests
  for either with \<^verbatim>\<open>_.isNull\<close>.
\<close>

datatype val = VNull | VInt int | VStr string

text \<open>
  A JavaScript object used as a record: its properties in insertion order, as
  \<^verbatim>\<open>for (var property in record)\<close> walks them. Reading a property that is not there
  gives \<^verbatim>\<open>undefined\<close>.
\<close>

type_synonym jsrecord = "(string \<times> val) list"

definition getProp :: "jsrecord \<Rightarrow> string \<Rightarrow> val" where
  "getProp r p = (case map_of r p of None \<Rightarrow> VNull | Some v \<Rightarrow> v)"

text \<open>
  Every way an operation can fail. A rejected promise and a thrown exception are both
  a value \<open>Inl e\<close>. \<open>ReferenceError\<close> is what evaluating the undeclared identifier
  \<^verbatim>\<open>id\<close> raises in the messages of insert and update of the sync context.
\<close>

datatype error =
    ValidationError string
  | InvalidId val
  | DefinitionNotFound string
  | ItemNotFound val
  | TooManyColumns
  | UnsupportedOperation string
  | NotInitialized
  | ReferenceError
  | SqlError
  | SerializerError

section \<open>Helpers that the sources use and do not contain\<close>

text \<open>
  \<^verbatim>\<open>idPropertyName = "id"\<close> is a constant of MobileServiceSqliteStore.js.
\<close>

definition idPropertyName :: string where
  "idPropertyName = ''id''"

text \<open>
  Modelled from the spec: \<^verbatim>\<open>storeHelper.isId\<close> and \<^verbatim>\<open>storeHelper.getId\<close> are not among the
  sources. The spec says that every record has a primary key field named \<^verbatim>\<open>id\<close>; the
  property is taken by that exact name.
\<close>

definition isId :: "string \<Rightarrow> bool" where
  "isId property = (property = idPropertyName)"

definition getId :: "jsrecord \<Rightarrow> val" where
  "getId r = getProp r idPropertyName"

text \<open>
  Modelled from the spec: \<^verbatim>\<open>extensions.isValidId\<close>, which \<^verbatim>\<open>Validate.isValidId\<close> calls, is
  not among the sources. The record identifier rules of the spec: a string id is not
  empty, is neither \<^verbatim>\<open>.\<close> nor \<^verbatim>\<open>..\<close> and holds none of the double quote, plus, question mark,
  backslash, slash, backtick or a control character; an integer id is positive.
\<close>

definition isControl :: "char \<Rightarrow> bool" where
  "isControl c =
     ((of_char c :: nat) < 32 \<or> (127 \<le> (of_char c :: nat) \<and> (of_char c :: nat) \<le> 159))"

definition forbiddenIdChars :: "char list" where
  "forbiddenIdChars = [dquote, CHR ''+'', CHR ''?'', backslash, CHR ''/'', CHR 0x60]"

fun isValidId :: "val \<Rightarrow> bool" where
  "isValidId VNull = False"
| "isValidId (VInt n) = (0 < n)"
| "isValidId (VStr s) =
     (s \<noteq> [] \<and> s \<noteq> ''.'' \<and> s \<noteq> ''..'' \<and>
      list_all (\<lambda>c. c \<notin> set forbiddenIdChars \<and> \<not> isControl c) s)"

text \<open>
  The column types of the spec; the aliases of a type (\<^verbatim>\<open>int\<close>, \<^verbatim>\<open>text\<close>, ...) are one
  constructor. A table definition is the argument of \<^verbatim>\<open>defineTable\<close>: a name and the
  \<^verbatim>\<open>columnDefinitions\<close> object, its properties in order.
\<close>

datatype ColumnType = CTObject | CTArray | CTDate | CTInteger | CTReal | CTString | CTBoolean

type_synonym columnDefinitions = "(string \<times> ColumnType) list"

record tableDefinition =
  def_name :: string
  def_columns :: columnDefinitions

text \<open>
  \<^verbatim>\<open>sqliteSerializer.serialize\<close> and \<^verbatim>\<open>sqliteSerializer.deserialize\<close> are not among the
  sources, and the spec does not say what they compute: they are parameters of the
  store. Either may throw.
\<close>

record codec =
  serialize :: "jsrecord \<Rightarrow> columnDefinitions \<Rightarrow> error + jsrecord"
  deserialize :: "jsrecord \<Rightarrow> columnDefinitions \<Rightarrow> error + jsrecord"

text \<open>
  Modelled from the spec: \<^verbatim>\<open>storeHelper.validateTableDefinition\<close> is not among the sources.
  What the spec has \<^verbatim>\<open>defineTable\<close> refuse before it touches the store: a definition
  with an empty name; a definition of more than 999 columns (the column-count limit of
  the spec, by which such tables are rejected at define time); a definition whose \<^verbatim>\<open>id\<close>
  column is not declared with type string or integer. The spec gives no order of these
  tests and does not name the errors. (The one test against 999 that the sources have is
  in \<^verbatim>\<open>_upsert\<close>, see \<open>columnCountExceeds\<close> below.)
\<close>

definition validateTableDefinition :: "tableDefinition \<Rightarrow> error + unit" where
  "validateTableDefinition d =
     (if def_name d = [] then Inl (ValidationError ''tableDefinition.name'')
      else if 999 < length (def_columns d)
      then Inl (ValidationError ''tableDefinition.columnDefinitions'')
      else (case map_of (def_columns d) idPropertyName of
              Some CTString \<Rightarrow> Inr ()
            | Some CTInteger \<Rightarrow> Inr ()
            | _ \<Rightarrow> Inl (ValidationError ''tableDefinition.columnDefinitions'')))"

text \<open>
  Modelled from the spec: \<^verbatim>\<open>storeHelper.addTableDefinition\<close> and
  \<^verbatim>\<open>storeHelper.getTableDefinition\<close> are not among the sources. They keep the in-memory
  schema registry of the spec: the definition of every defined table, by its name.
\<close>

definition addTableDefinition ::
  "(string \<rightharpoonup> tableDefinition) \<Rightarrow> tableDefinition \<Rightarrow> (string \<rightharpoonup> tableDefinition)" where
  "addTableDefinition defs d = defs(def_name d \<mapsto> d)"

definition getTableDefinition ::
  "(string \<rightharpoonup> tableDefinition) \<Rightarrow> string \<Rightarrow> tableDefinition option" where
  "getTableDefinition defs tableName = defs tableName"

section \<open>The SQLite engine behind the store\<close>

text \<open>
  The store builds SQL text and hands it to the SQLite plugin. The model keeps the parts
  of each statement the source builds and gives the statement the meaning SQLite gives
  it. Table and column names are taken to be names SQLite reads as they are written
  (the source writes most of them unquoted); values are compared as they are stored.

  SQLite compares column names without regard to the case of ASCII letters, and so does
  the \<^verbatim>\<open>toLowerCase\<close> of the source on the names \<^verbatim>\<open>defineTable\<close> compares.
\<close>

definition toLowerChar :: "char \<Rightarrow> char" where
  "toLowerChar c =
     (case map_of (zip ''ABCDEFGHIJKLMNOPQRSTUVWXYZ'' ''abcdefghijklmnopqrstuvwxyz'') c of
        None \<Rightarrow> c
      | Some l \<Rightarrow> l)"

definition toLowerCase :: "string \<Rightarrow> string" where
  "toLowerCase s = map toLowerChar s"

text \<open>
  The declared type of a column: \<^verbatim>\<open>createTable\<close> writes what
  \<^verbatim>\<open>sqliteSerializer.getSqliteType\<close> returns for the column type, \<^verbatim>\<open>addMissingColumns\<close> writes
  the column type itself.
\<close>

datatype sqltype = SqliteTypeOf ColumnType | TypeToken ColumnType

record column =
  cname :: string
  ctype :: sqltype
  cpk :: bool

text \<open>A table: its columns in order, and its rows, each with one value per column.\<close>

record table =
  tcolumns :: "column list"
  trows :: "val list list"

type_synonym database = "string \<rightharpoonup> table"

text \<open>
  The statements the store writes:
  \<^item> \<^verbatim>\<open>CREATE TABLE [t] ([c] type PRIMARY KEY, ...)\<close>,
  \<^item> \<^verbatim>\<open>ALTER TABLE t ADD COLUMN c type\<close>,
  \<^item> \<^verbatim>\<open>INSERT OR IGNORE INTO t (c, ...) VALUES (?, ...)\<close> with its parameters,
  \<^item> \<^verbatim>\<open>UPDATE t SET c = ?, ... WHERE id = ?\<close> with the parameters of the assignments and
    the id,
  \<^item> \<^verbatim>\<open>DELETE FROM t WHERE id in (?, ...)\<close> with its parameters.
\<close>

datatype statement =
    CreateTable string "column list"
  | AddColumn string column
  | InsertOrIgnore string "string list" "val list"
  | UpdateById string "string list" "val list" val
  | DeleteByIds string "val list"

definition columnNames :: "column list \<Rightarrow> string list" where
  "columnNames cols = map (\<lambda>c. toLowerCase (cname c)) cols"

definition hasColumn :: "column list \<Rightarrow> string \<Rightarrow> bool" where
  "hasColumn cols n = (toLowerCase n \<in> set (columnNames cols))"

text \<open>The value a row holds in the column of a given name.\<close>

definition cell :: "column list \<Rightarrow> val list \<Rightarrow> string \<Rightarrow> val" where
  "cell cols row n =
     (case map_of (zip (columnNames cols) row) (toLowerCase n) of None \<Rightarrow> VNull | Some v \<Rightarrow> v)"

text \<open>The value a list of column names with its parameters gives to a column.\<close>

definition assigned :: "string list \<Rightarrow> val list \<Rightarrow> string \<Rightarrow> val option" where
  "assigned names vals n = map_of (zip (map toLowerCase names) vals) (toLowerCase n)"

text \<open>
  The primary key: two rows are in conflict when their key values are the same and none
  of them is NULL.
\<close>

definition pkValues :: "column list \<Rightarrow> val list \<Rightarrow> val list" where
  "pkValues cols row = map snd (filter (\<lambda>(c, v). cpk c) (zip cols row))"

definition pkConflict :: "column list \<Rightarrow> val list \<Rightarrow> val list \<Rightarrow> bool" where
  "pkConflict cols r1 r2 =
     (pkValues cols r1 \<noteq> [] \<and> list_all (\<lambda>v. v \<noteq> VNull) (pkValues cols r1)
      \<and> pkValues cols r1 = pkValues cols r2)"

fun pkUnique :: "column list \<Rightarrow> val list list \<Rightarrow> bool" where
  "pkUnique cols [] = True"
| "pkUnique cols (r # rs) = (list_all (\<lambda>r'. \<not> pkConflict cols r r') rs \<and> pkUnique cols rs)"

text \<open>
  The row an INSERT writes: a column takes the value of the first place that names it, a
  column that is not named is NULL. The row an UPDATE leaves: a column takes the value of
  the last assignment that names it, a column that is not named keeps its value.
\<close>

definition insertRow :: "column list \<Rightarrow> string list \<Rightarrow> val list \<Rightarrow> val list" where
  "insertRow cols names vals =
     map (\<lambda>c. case assigned names vals (cname c) of None \<Rightarrow> VNull | Some v \<Rightarrow> v) cols"

definition updateRow :: "column list \<Rightarrow> string list \<Rightarrow> val list \<Rightarrow> val list \<Rightarrow> val list" where
  "updateRow cols names vals row =
     map (\<lambda>(c, old). case assigned (rev names) (rev vals) (cname c) of None \<Rightarrow> old | Some v \<Rightarrow> v)
       (zip cols row)"

text \<open>
  One statement on the database. An error is what makes the plugin roll the transaction
  back: a table or a column that does not exist, a table or a column that exists
  already, a second primary key, a primary key that is no longer unique. INSERT OR IGNORE
  leaves the table as it is when the new row is in conflict with a row on the primary
  key.
\<close>

fun executeSql :: "statement \<Rightarrow> database \<Rightarrow> error + database" where
  "executeSql (CreateTable t cols) d =
     (if d t \<noteq> None \<or> cols = [] \<or> \<not> distinct (columnNames cols) \<or> length (filter cpk cols) > 1
      then Inl SqlError
      else Inr (d(t \<mapsto> \<lparr>tcolumns = cols, trows = []\<rparr>)))"
| "executeSql (AddColumn t c) d =
     (case d t of
        None \<Rightarrow> Inl SqlError
      | Some tb \<Rightarrow>
          if hasColumn (tcolumns tb) (cname c) \<or> cpk c then Inl SqlError
          else Inr (d(t \<mapsto> \<lparr>tcolumns = tcolumns tb @ [c],
                              trows = map (\<lambda>r. r @ [VNull]) (trows tb)\<rparr>)))"
| "executeSql (InsertOrIgnore t names vals) d =
     (case d t of
        None \<Rightarrow> Inl SqlError
      | Some tb \<Rightarrow>
          if names = [] \<or> length names \<noteq> length vals
             \<or> \<not> list_all (hasColumn (tcolumns tb)) names then Inl SqlError
          else (let row = insertRow (tcolumns tb) names vals in
                if list_ex (pkConflict (tcolumns tb) row) (trows tb) then Inr d
                else Inr (d(t \<mapsto> tb\<lparr>trows := trows tb @ [row]\<rparr>))))"
| "executeSql (UpdateById t names vals i) d =
     (case d t of
        None \<Rightarrow> Inl SqlError
      | Some tb \<Rightarrow>
          if names = [] \<or> length names \<noteq> length vals
             \<or> \<not> list_all (hasColumn (tcolumns tb)) names
             \<or> \<not> hasColumn (tcolumns tb) idPropertyName then Inl SqlError
          else (let rows = map (\<lambda>r. if i \<noteq> VNull \<and> cell (tcolumns tb) r idPropertyName = i
                                      then updateRow (tcolumns tb) names vals r else r) (trows tb) in
                if \<not> pkUnique (tcolumns tb) rows then Inl SqlError
                else Inr (d(t \<mapsto> tb\<lparr>trows := rows\<rparr>))))"
| "executeSql (DeleteByIds t ids) d =
     (case d t of
        None \<Rightarrow> Inl SqlError
      | Some tb \<Rightarrow>
          if \<not> hasColumn (tcolumns tb) idPropertyName then Inl SqlError
          else Inr (d(t \<mapsto> tb\<lparr>trows :=
                 filter (\<lambda>r. cell (tcolumns tb) r idPropertyName = VNull
                             \<or> cell (tcolumns tb) r idPropertyName \<notin> set ids) (trows tb)\<rparr>)))"

fun executeAll :: "statement list \<Rightarrow> database \<Rightarrow> error + database" where
  "executeAll [] d = Inr d"
| "executeAll (s # ss) d =
     (case executeSql s d of Inl e \<Rightarrow> Inl e | Inr d' \<Rightarrow> executeAll ss d')"

text \<open>
  \<^verbatim>\<open>db.transaction(fn, error, success)\<close>: the function queues its statements (it may read
  the database first, as \<^verbatim>\<open>defineTable\<close> does with its PRAGMA); when it throws, or when a
  statement fails, nothing of the transaction is kept and the error callback runs;
  otherwise all the statements have run, in order.
\<close>

definition transaction ::
  "(database \<Rightarrow> error + statement list) \<Rightarrow> database \<Rightarrow> error + database" where
  "transaction fn d = (case fn d of Inl e \<Rightarrow> Inl e | Inr stmts \<Rightarrow> executeAll stmts d)"

text \<open>\<^verbatim>\<open>PRAGMA table_info(t)\<close>: the columns of the table, none when there is no table.\<close>

definition tableInfo :: "database \<Rightarrow> string \<Rightarrow> column list" where
  "tableInfo d t = (case d t of None \<Rightarrow> [] | Some tb \<Rightarrow> tcolumns tb)"

text \<open>A row as the object a SELECT * returns: the columns' names with the row's values.\<close>

definition toRecord :: "column list \<Rightarrow> val list \<Rightarrow> jsrecord" where
  "toRecord cols row = zip (map cname cols) row"

text \<open>
  \<^verbatim>\<open>id = ? COLLATE NOCASE\<close>: two strings are equal when they differ in the case of ASCII
  letters only; NULL is equal to nothing.
\<close>

fun nocaseEq :: "val \<Rightarrow> val \<Rightarrow> bool" where
  "nocaseEq (VStr a) (VStr b) = (toLowerCase a = toLowerCase b)"
| "nocaseEq (VInt a) (VInt b) = (a = b)"
| "nocaseEq _ _ = False"

text \<open>\<^verbatim>\<open>SELECT * FROM [t] WHERE id = ? COLLATE NOCASE\<close>.\<close>

definition selectById :: "database \<Rightarrow> string \<Rightarrow> val \<Rightarrow> error + jsrecord list" where
  "selectById d t i =
     (case d t of
        None \<Rightarrow> Inl SqlError
      | Some tb \<Rightarrow>
          if \<not> hasColumn (tcolumns tb) idPropertyName then Inl SqlError
          else Inr (map (toRecord (tcolumns tb))
                     (filter (\<lambda>r. nocaseEq (cell (tcolumns tb) r idPropertyName) i) (trows tb))))"

section \<open>MobileServiceSqliteStore\<close>

text \<open>
  The state of a store: the database behind \<^verbatim>\<open>this._db\<close> and the variable
  \<^verbatim>\<open>tableDefinitions\<close>. A name of the source that starts with an underscore is written
  with the prefix \<open>priv_\<close>.
\<close>

record store =
  db :: database
  tableDefinitions :: "string \<rightharpoonup> tableDefinition"

text \<open>
  Modelled from the spec: \<^verbatim>\<open>taskRunner\<close> is not among the sources. The spec: the store
  owns a single-writer task queue, every operation is enqueued and the operations are
  executed serially. So a task is started when every task queued before it has settled.

  The promise an operation returns is settled, with an error or with a value, or it is
  never settled.
\<close>

datatype 'a promise = Settled "error + 'a" | Unsettled

text \<open>
  \<^verbatim>\<open>runner.run(task)\<close> queues the task and returns the promise of its outcome. With no
  task of the runner running, the task is started at once. \<open>busy\<close> says that the call is
  made by a task of this runner that is running. The one such call of the store is in
  \<^verbatim>\<open>_deleteUsingQuery\<close>, which does all the rest of its work, the call of its task's
  callback too, in the continuation of the promise it gets. The queued task is not
  started before the running task has settled, and the running task does not settle
  before the promise of the queued task has: the promise is never settled, the queued
  task is never started, and the store stays as it is.
\<close>

definition run :: "bool \<Rightarrow> (store \<Rightarrow> 'a promise \<times> store) \<Rightarrow> store \<Rightarrow> 'a promise \<times> store" where
  "run busy task st = (if busy then (Unsettled, st) else task st)"

text \<open>
  \<^verbatim>\<open>defineTable\<close>, \<^verbatim>\<open>upsert\<close>, \<^verbatim>\<open>lookup\<close> and \<^verbatim>\<open>executeBatch\<close> hand their task to
  \<^verbatim>\<open>runner.run\<close> and call no operation of the runner from within it. They are modelled
  as they are called from outside, with no task running: the task is run to its end, and
  the operation returns the value its promise is settled with and the state it leaves.
  \<^verbatim>\<open>read\<close> and \<^verbatim>\<open>del\<close> are modelled with their promises.
\<close>

text \<open>
  \<^verbatim>\<open>existingColumns\<close> in \<^verbatim>\<open>defineTable\<close> is a plain object with the lower-cased names of
  the table's columns as keys. \<^verbatim>\<open>existingColumns[columnName.toLowerCase()]\<close> is also
  truthy for the lower-case names every object inherits.
\<close>

definition inheritedProperties :: "string list" where
  "inheritedProperties = [''constructor'', ''__proto__'']"

definition existingColumns :: "column list \<Rightarrow> string list" where
  "existingColumns cols = map (\<lambda>c. toLowerCase (cname c)) cols"

definition isExisting :: "string list \<Rightarrow> string \<Rightarrow> bool" where
  "isExisting existing columnName =
     (toLowerCase columnName \<in> set existing \<or> toLowerCase columnName \<in> set inheritedProperties)"

text \<open>\<^verbatim>\<open>createTable\<close>: one column for each column definition, the id column the primary key.\<close>

definition createTable :: "tableDefinition \<Rightarrow> statement list" where
  "createTable d =
     [CreateTable (def_name d)
        (map (\<lambda>(columnName, columnType).
               \<lparr>cname = columnName, ctype = SqliteTypeOf columnType, cpk = isId columnName\<rparr>)
           (def_columns d))]"

text \<open>
  \<^verbatim>\<open>addMissingColumns\<close>: one ALTER TABLE for each column definition whose name is not an
  existing column.
\<close>

definition addMissingColumns :: "tableDefinition \<Rightarrow> string list \<Rightarrow> statement list" where
  "addMissingColumns d existing =
     map (\<lambda>(columnName, columnType).
            AddColumn (def_name d) \<lparr>cname = columnName, ctype = TypeToken columnType, cpk = False\<rparr>)
       (filter (\<lambda>(columnName, columnType). \<not> isExisting existing columnName) (def_columns d))"

text \<open>
  \<^verbatim>\<open>defineTable\<close>: validate; in one transaction read the table's columns and either add
  the missing ones (the table exists: the PRAGMA returned rows) or create the table;
  when the transaction has succeeded, put the definition in the registry.
\<close>

definition defineTable :: "tableDefinition \<Rightarrow> store \<Rightarrow> (error + unit) \<times> store" where
  "defineTable d st =
     (case validateTableDefinition d of
        Inl e \<Rightarrow> (Inl e, st)
      | Inr _ \<Rightarrow>
          (case transaction
                  (\<lambda>dbs. let result = tableInfo dbs (def_name d) in
                          if length result > 0
                          then Inr (addMissingColumns d (existingColumns result))
                          else Inr (createTable d))
                  (db st) of
             Inl e \<Rightarrow> (Inl e, st)
           | Inr db' \<Rightarrow>
               (Inr (), st\<lparr>db := db',
                           tableDefinitions := addTableDefinition (tableDefinitions st) d\<rparr>)))"

text \<open>
  The \<^verbatim>\<open>data\<close> argument of \<^verbatim>\<open>upsert\<close>: nothing, one record, or an array whose entries may
  be null.
\<close>

datatype upsertData = NoData | Single jsrecord | Array "jsrecord option list"

text \<open>
  The first loop of \<^verbatim>\<open>_upsert\<close>: every record that is not null must have a valid id and
  is replaced by its serialized form; the first failure is thrown.
\<close>

fun serializeRecords ::
  "codec \<Rightarrow> columnDefinitions \<Rightarrow> jsrecord option list \<Rightarrow> error + jsrecord option list" where
  "serializeRecords C cds [] = Inr []"
| "serializeRecords C cds (None # rs) =
     (case serializeRecords C cds rs of Inl e \<Rightarrow> Inl e | Inr rs' \<Rightarrow> Inr (None # rs'))"
| "serializeRecords C cds (Some r # rs) =
     (if \<not> isValidId (getId r) then Inl (InvalidId (getId r))
      else (case serialize C r cds of
              Inl e \<Rightarrow> Inl e
            | Inr r' \<Rightarrow>
                (case serializeRecords C cds rs of
                   Inl e \<Rightarrow> Inl e
                 | Inr rs' \<Rightarrow> Inr (Some r' # rs'))))"

text \<open>
  \<^verbatim>\<open>tableDefinition.columnDefinitions.length > 999\<close>: \<^verbatim>\<open>columnDefinitions\<close> is an object
  keyed by column name, so \<^verbatim>\<open>.length\<close> reads the column named \<^verbatim>\<open>length\<close>. It is
  \<^verbatim>\<open>undefined\<close> when there is no such column and a column type otherwise; compared with
  999 both give NaN, and the comparison is false.
\<close>

definition columnCountExceeds :: "columnDefinitions \<Rightarrow> bool" where
  "columnCountExceeds cds =
     (case map_of cds ''length'' of None \<Rightarrow> False | Some columnType \<Rightarrow> False)"

text \<open>
  The statements of one record: an INSERT OR IGNORE of all its properties, and, when it
  has a property other than the id, an UPDATE of those properties in the row of its id.
\<close>

fun upsertStatements :: "string \<Rightarrow> jsrecord option \<Rightarrow> statement list" where
  "upsertStatements tableName None = []"
| "upsertStatements tableName (Some record) =
     (let updates = filter (\<lambda>(property, v). \<not> isId property) record in
      InsertOrIgnore tableName (map fst record) (map snd record) #
      (if length updates > 0
       then [UpdateById tableName (map fst updates) (map snd updates) (getId record)]
       else []))"

text \<open>
  \<^verbatim>\<open>_upsert\<close>, inside a transaction: the statements it queues, or the error it throws.
  The test hook \<^verbatim>\<open>_editStatement\<close> is not set.
\<close>

definition priv_upsert ::
  "codec \<Rightarrow> (string \<rightharpoonup> tableDefinition) \<Rightarrow> string \<Rightarrow> upsertData \<Rightarrow> error + statement list" where
  "priv_upsert C defs tableName data =
     (if tableName = [] then Inl (ValidationError ''tableName'')
      else (case getTableDefinition defs tableName of
              None \<Rightarrow> Inl (DefinitionNotFound tableName)
            | Some tableDef \<Rightarrow>
                (case data of
                   NoData \<Rightarrow> Inr []
                 | _ \<Rightarrow>
                     (case serializeRecords C (def_columns tableDef)
                             (case data of Array rs \<Rightarrow> rs | Single r \<Rightarrow> [Some r] | NoData \<Rightarrow> []) of
                        Inl e \<Rightarrow> Inl e
                      | Inr records \<Rightarrow>
                          if columnCountExceeds (def_columns tableDef) then Inl TooManyColumns
                          else Inr (concat (map (upsertStatements tableName) records))))))"

definition upsert :: "codec \<Rightarrow> string \<Rightarrow> upsertData \<Rightarrow> store \<Rightarrow> (error + unit) \<times> store" where
  "upsert C tableName data st =
     (case transaction (\<lambda>dbs. priv_upsert C (tableDefinitions st) tableName data) (db st) of
        Inl e \<Rightarrow> (Inl e, st)
      | Inr db' \<Rightarrow> (Inr (), st\<lparr>db := db'\<rparr>))"

text \<open>
  \<^verbatim>\<open>lookup\<close>: the first row the SELECT returns, deserialized; with no row, nothing when
  \<^verbatim>\<open>suppressRecordNotFoundError\<close> is set and an error otherwise. It does not change the
  store.
\<close>

definition lookup :: "codec \<Rightarrow> string \<Rightarrow> val \<Rightarrow> bool \<Rightarrow> store \<Rightarrow> error + jsrecord option" where
  "lookup C tableName i suppressRecordNotFoundError st =
     (if tableName = [] then Inl (ValidationError ''tableName'')
      else if \<not> isValidId i then Inl (InvalidId i)
      else (case getTableDefinition (tableDefinitions st) tableName of
              None \<Rightarrow> Inl (DefinitionNotFound tableName)
            | Some tableDef \<Rightarrow>
                (case selectById (db st) tableName i of
                   Inl e \<Rightarrow> Inl e
                 | Inr [] \<Rightarrow>
                     if suppressRecordNotFoundError then Inr None else Inl (ItemNotFound i)
                 | Inr (record # _) \<Rightarrow>
                     (case deserialize C record (def_columns tableDef) of
                        Inl e \<Rightarrow> Inl e
                      | Inr record' \<Rightarrow> Inr (Some record')))))"

text \<open>\<^verbatim>\<open>_deleteIds\<close>: one DELETE with the ids that are not null.\<close>

definition priv_deleteIds :: "string \<Rightarrow> val list \<Rightarrow> statement list" where
  "priv_deleteIds tableName ids = [DeleteByIds tableName (filter (\<lambda>i. i \<noteq> VNull) ids)]"

text \<open>
  A query object, by what the statements translated from it select (the translation is
  the work of two libraries outside the repository): the table, the selected columns
  (none for all of them), the filter, the ordering, paging, and whether the total count
  is asked for.
\<close>

record query =
  q_table :: string
  q_selections :: "string list"
  q_filter :: "jsrecord \<Rightarrow> bool"
  q_ordering :: "jsrecord list \<Rightarrow> jsrecord list"
  q_skip :: nat
  q_top :: "nat option"
  q_includeTotalCount :: bool

datatype readResult = Records "jsrecord list" | WithCount "jsrecord list" nat

definition project :: "string list \<Rightarrow> jsrecord \<Rightarrow> jsrecord" where
  "project selections r =
     (if selections = [] then r
      else map (\<lambda>s. (s, case map_of (map (\<lambda>(p, v). (toLowerCase p, v)) r) (toLowerCase s) of
                           None \<Rightarrow> VNull | Some v \<Rightarrow> v)) selections)"

definition selectQuery :: "database \<Rightarrow> query \<Rightarrow> error + jsrecord list" where
  "selectQuery d q =
     (case d (q_table q) of
        None \<Rightarrow> Inl SqlError
      | Some tb \<Rightarrow>
          if \<not> list_all (hasColumn (tcolumns tb)) (q_selections q) then Inl SqlError
          else (let matching = q_ordering q (filter (q_filter q) (map (toRecord (tcolumns tb)) (trows tb)));
                    page = (case q_top q of None \<Rightarrow> drop (q_skip q) matching
                            | Some n \<Rightarrow> take n (drop (q_skip q) matching))
                in Inr (map (project (q_selections q)) page)))"

definition countQuery :: "database \<Rightarrow> query \<Rightarrow> error + nat" where
  "countQuery d q =
     (case d (q_table q) of
        None \<Rightarrow> Inl SqlError
      | Some tb \<Rightarrow> Inr (length (filter (q_filter q) (map (toRecord (tcolumns tb)) (trows tb)))))"

fun deserializeAll :: "codec \<Rightarrow> columnDefinitions \<Rightarrow> jsrecord list \<Rightarrow> error + jsrecord list" where
  "deserializeAll C cds [] = Inr []"
| "deserializeAll C cds (r # rs) =
     (case deserialize C r cds of
        Inl e \<Rightarrow> Inl e
      | Inr r' \<Rightarrow> (case deserializeAll C cds rs of Inl e \<Rightarrow> Inl e | Inr rs' \<Rightarrow> Inr (r' # rs')))"

text \<open>
  \<^verbatim>\<open>_read\<close>: the records of the first statement, deserialized, and with them the count
  of the second statement when the query asks for it. \<^verbatim>\<open>read\<close> hands \<^verbatim>\<open>_read\<close> to the
  runner as a task (a query of the model is an object, so the task's validation passes).
\<close>

definition priv_read :: "codec \<Rightarrow> query \<Rightarrow> store \<Rightarrow> error + readResult" where
  "priv_read C q st =
     (case getTableDefinition (tableDefinitions st) (q_table q) of
        None \<Rightarrow> Inl (DefinitionNotFound (q_table q))
      | Some tableDef \<Rightarrow>
          (case selectQuery (db st) q of
             Inl e \<Rightarrow> Inl e
           | Inr rows \<Rightarrow>
               (case deserializeAll C (def_columns tableDef) rows of
                  Inl e \<Rightarrow> Inl e
                | Inr result \<Rightarrow>
                    if q_includeTotalCount q
                    then (case countQuery (db st) q of
                            Inl e \<Rightarrow> Inl e
                          | Inr n \<Rightarrow> Inr (WithCount result n))
                    else Inr (Records result))))"

definition read :: "bool \<Rightarrow> codec \<Rightarrow> query \<Rightarrow> store \<Rightarrow> readResult promise \<times> store" where
  "read busy C q st = run busy (\<lambda>s. (Settled (priv_read C q s), s)) st"

text \<open>
  \<^verbatim>\<open>_deleteUsingQuery\<close>: empty the selections of the query, read it, and in the continuation
  of the read take the id of every record read and delete these ids in one transaction.
  The read is \<^verbatim>\<open>self.read(query)\<close>, the operation that goes through the runner, and
  \<^verbatim>\<open>_deleteUsingQuery\<close> is called by the task of \<^verbatim>\<open>del\<close>: the runner is busy.
\<close>

definition priv_deleteUsingQuery :: "codec \<Rightarrow> query \<Rightarrow> store \<Rightarrow> unit promise \<times> store" where
  "priv_deleteUsingQuery C q st =
     (let q' = (if length (q_selections q) > 0 then q\<lparr>q_selections := []\<rparr> else q) in
      case read True C q' st of
        (Unsettled, st') \<Rightarrow> (Unsettled, st')
      | (Settled (Inl e), st') \<Rightarrow> (Settled (Inl e), st')
      | (Settled (Inr res), st') \<Rightarrow>
          (let result = (case res of Records rs \<Rightarrow> rs | WithCount rs n \<Rightarrow> rs);
               tableName = q_table q'
           in if tableName = [] then (Settled (Inl (ValidationError ''tableName'')), st')
              else (let ids = map (\<lambda>record. getProp record idPropertyName) result in
                    case transaction (\<lambda>dbs. Inr (priv_deleteIds tableName ids)) (db st') of
                      Inl e \<Rightarrow> (Settled (Inl e), st')
                    | Inr db' \<Rightarrow> (Settled (Inr ()), st'\<lparr>db := db'\<rparr>))))"

text \<open>
  \<^verbatim>\<open>del\<close>: with a table name and ids (one id is an array of one), or with a query.
  \<open>delTask\<close> is the function \<^verbatim>\<open>del\<close> hands to the runner; \<^verbatim>\<open>del\<close> itself is called from
  outside, with no task running.
\<close>

datatype delTarget = ByTableName string "val list" | ByQuery query

fun firstInvalidId :: "val list \<Rightarrow> val option" where
  "firstInvalidId [] = None"
| "firstInvalidId (i # ids) =
     (if i \<noteq> VNull \<and> \<not> isValidId i then Some i else firstInvalidId ids)"

fun delTask :: "codec \<Rightarrow> delTarget \<Rightarrow> store \<Rightarrow> unit promise \<times> store" where
  "delTask C (ByTableName tableName ids) st =
     (if tableName = [] then (Settled (Inl (ValidationError ''tableNameOrQuery'')), st)
      else (case transaction
                   (\<lambda>dbs. case firstInvalidId ids of
                             Some i \<Rightarrow> Inl (InvalidId i)
                           | None \<Rightarrow> Inr (priv_deleteIds tableName ids))
                   (db st) of
              Inl e \<Rightarrow> (Settled (Inl e), st)
            | Inr db' \<Rightarrow> (Settled (Inr ()), st\<lparr>db := db'\<rparr>)))"
| "delTask C (ByQuery q) st = priv_deleteUsingQuery C q st"

definition del :: "codec \<Rightarrow> delTarget \<Rightarrow> store \<Rightarrow> unit promise \<times> store" where
  "del C target st = run False (delTask C target) st"

text \<open>
  An entry of the array \<^verbatim>\<open>executeBatch\<close> takes. \<^verbatim>\<open>executeBatch\<close> walks the array inside
  one transaction: a null entry is skipped, an upsert queues what \<^verbatim>\<open>_upsert\<close> queues, a
  delete with an id queues what \<^verbatim>\<open>_deleteIds\<close> queues, anything else throws.
\<close>

record operation =
  op_action :: string
  op_tableName :: string
  op_data :: upsertData
  op_id :: val

definition operationStatements ::
  "codec \<Rightarrow> (string \<rightharpoonup> tableDefinition) \<Rightarrow> operation \<Rightarrow> error + statement list" where
  "operationStatements C defs operation =
     (if op_action operation = [] then Inl (ValidationError ''action'')
      else if op_tableName operation = [] then Inl (ValidationError ''tableName'')
      else if toLowerCase (op_action operation) = ''upsert''
        then priv_upsert C defs (op_tableName operation) (op_data operation)
      else if toLowerCase (op_action operation) = ''delete''
        then (if op_id operation \<noteq> VNull
              then (if \<not> isValidId (op_id operation) then Inl (InvalidId (op_id operation))
                    else Inr (priv_deleteIds (op_tableName operation) [op_id operation]))
              else Inr [])
      else Inl (UnsupportedOperation (op_action operation)))"

fun batchStatements ::
  "codec \<Rightarrow> (string \<rightharpoonup> tableDefinition) \<Rightarrow> operation option list \<Rightarrow> error + statement list" where
  "batchStatements C defs [] = Inr []"
| "batchStatements C defs (None # ops) = batchStatements C defs ops"
| "batchStatements C defs (Some operation # ops) =
     (case operationStatements C defs operation of
        Inl e \<Rightarrow> Inl e
      | Inr stmts \<Rightarrow>
          (case batchStatements C defs ops of
             Inl e \<Rightarrow> Inl e
           | Inr rest \<Rightarrow> Inr (stmts @ rest)))"

definition executeBatch ::
  "codec \<Rightarrow> operation option list \<Rightarrow> store \<Rightarrow> (error + unit) \<times> store" where
  "executeBatch C operations st =
     (case transaction (\<lambda>dbs. batchStatements C (tableDefinitions st) operations) (db st) of
        Inl e \<Rightarrow> (Inl e, st)
      | Inr db' \<Rightarrow> (Inr (), st\<lparr>db := db'\<rparr>))"

section \<open>MobileServiceSyncContext\<close>

text \<open>
  The sync context holds the store it was initialized with, or nothing before that.
  \<^verbatim>\<open>operationTableManager.getLoggingOperation\<close> is not among the sources: it is a
  parameter, a function of the store, the table name, the action and the record id that
  gives the batch operation for the operation log (which may be null), or fails.
\<close>

type_synonym loggingOperation = "store \<Rightarrow> string \<Rightarrow> string \<Rightarrow> val \<Rightarrow> error + operation option"

text \<open>
  \<^verbatim>\<open>insert\<close>: \<^verbatim>\<open>store.lookup(tableName, instance.id)\<close> is called with two arguments, so
  \<^verbatim>\<open>suppressRecordNotFoundError\<close> is not set. When the lookup gives a record, building the
  message of the error reads the undeclared \<^verbatim>\<open>id\<close>.
\<close>

definition insert_ctx ::
  "codec \<Rightarrow> loggingOperation \<Rightarrow> string \<Rightarrow> jsrecord option \<Rightarrow> store option
     \<Rightarrow> (error + jsrecord) \<times> store option" where
  "insert_ctx C getLoggingOperation tableName inst ctx =
     (if tableName = [] then (Inl (ValidationError ''tableName''), ctx)
      else (case inst of
              None \<Rightarrow> (Inl (ValidationError ''instance''), ctx)
            | Some instance \<Rightarrow>
                if \<not> isValidId (getProp instance ''id'')
                then (Inl (InvalidId (getProp instance ''id'')), ctx)
                else (case ctx of
                        None \<Rightarrow> (Inl NotInitialized, ctx)
                      | Some st \<Rightarrow>
                          (case lookup C tableName (getProp instance ''id'') False st of
                             Inl e \<Rightarrow> (Inl e, ctx)
                           | Inr (Some result) \<Rightarrow> (Inl ReferenceError, ctx)
                           | Inr None \<Rightarrow>
                               (case getLoggingOperation st tableName ''insert''
                                       (getProp instance ''id'') of
                                  Inl e \<Rightarrow> (Inl e, ctx)
                                | Inr loggingOp \<Rightarrow>
                                    (case executeBatch C
                                            [Some \<lparr>op_action = ''upsert'', op_tableName = tableName,
                                                   op_data = Single instance, op_id = VNull\<rparr>,
                                             loggingOp] st of
                                       (Inl e, st') \<Rightarrow> (Inl e, Some st')
                                     | (Inr _, st') \<Rightarrow> (Inr instance, Some st')))))))"

text \<open>\<^verbatim>\<open>update\<close>: the same, with the test of the lookup's result the other way round.\<close>

definition update_ctx ::
  "codec \<Rightarrow> loggingOperation \<Rightarrow> string \<Rightarrow> jsrecord option \<Rightarrow> store option
     \<Rightarrow> (error + jsrecord) \<times> store option" where
  "update_ctx C getLoggingOperation tableName inst ctx =
     (if tableName = [] then (Inl (ValidationError ''tableName''), ctx)
      else (case inst of
              None \<Rightarrow> (Inl (ValidationError ''instance''), ctx)
            | Some instance \<Rightarrow>
                if \<not> isValidId (getProp instance ''id'')
                then (Inl (InvalidId (getProp instance ''id'')), ctx)
                else (case ctx of
                        None \<Rightarrow> (Inl NotInitialized, ctx)
                      | Some st \<Rightarrow>
                          (case lookup C tableName (getProp instance ''id'') False st of
                             Inl e \<Rightarrow> (Inl e, ctx)
                           | Inr None \<Rightarrow> (Inl ReferenceError, ctx)
                           | Inr (Some result) \<Rightarrow>
                               (case getLoggingOperation st tableName ''update''
                                       (getProp instance ''id'') of
                                  Inl e \<Rightarrow> (Inl e, ctx)
                                | Inr loggingOp \<Rightarrow>
                                    (case executeBatch C
                                            [Some \<lparr>op_action = ''upsert'', op_tableName = tableName,
                                                   op_data = Single instance, op_id = VNull\<rparr>,
                                             loggingOp] st of
                                       (Inl e, st') \<Rightarrow> (Inl e, Some st')
                                     | (Inr _, st') \<Rightarrow> (Inr instance, Some st')))))))"

text \<open>\<^verbatim>\<open>del\<close> of the sync context: no lookup; the delete and the logging operation.\<close>

definition del_ctx ::
  "codec \<Rightarrow> loggingOperation \<Rightarrow> string \<Rightarrow> jsrecord option \<Rightarrow> store option
     \<Rightarrow> (error + unit) \<times> store option" where
  "del_ctx C getLoggingOperation tableName inst ctx =
     (if tableName = [] then (Inl (ValidationError ''tableName''), ctx)
      else (case inst of
              None \<Rightarrow> (Inl (ValidationError ''instance''), ctx)
            | Some instance \<Rightarrow>
                if \<not> isValidId (getProp instance ''id'')
                then (Inl (InvalidId (getProp instance ''id'')), ctx)
                else (case ctx of
                        None \<Rightarrow> (Inl NotInitialized, ctx)
                      | Some st \<Rightarrow>
                          (case getLoggingOperation st tableName ''delete''
                                  (getProp instance ''id'') of
                             Inl e \<Rightarrow> (Inl e, ctx)
                           | Inr loggingOp \<Rightarrow>
                               (case executeBatch C
                                       [Some \<lparr>op_action = ''delete'', op_tableName = tableName,
                                              op_data = NoData,
                                              op_id = getProp instance ''id''\<rparr>,
                                        loggingOp] st of
                                  (Inl e, st') \<Rightarrow> (Inl e, Some st')
                                | (Inr _, st') \<Rightarrow> (Inr (), Some st'))))))"

section \<open>Notions the statements are written with\<close>

text \<open>The id of a row: the value in its \<^verbatim>\<open>id\<close> column.\<close>

definition idOf :: "column list \<Rightarrow> val list \<Rightarrow> val" where
  "idOf cols row = cell cols row idPropertyName"

text \<open>
  The columns of a table that \<^verbatim>\<open>createTable\<close> made: the names differ (without regard to
  case), there is an id column, and the primary key is the id column and no other.
\<close>

definition keyCols :: "column list \<Rightarrow> bool" where
  "keyCols cols =
     (distinct (columnNames cols) \<and> idPropertyName \<in> set (columnNames cols) \<and>
      list_all (\<lambda>c. cpk c = (toLowerCase (cname c) = idPropertyName)) cols)"

text \<open>
  A table as the store keeps it: such columns, rows of the columns' length, and no two
  rows in conflict on the primary key.
\<close>

definition idKeyed :: "table \<Rightarrow> bool" where
  "idKeyed tb =
     (distinct (columnNames (tcolumns tb)) \<and>
      idPropertyName \<in> set (columnNames (tcolumns tb)) \<and>
      list_all (\<lambda>c. cpk c = (toLowerCase (cname c) = idPropertyName)) (tcolumns tb) \<and>
      list_all (\<lambda>r. length r = length (tcolumns tb)) (trows tb) \<and>
      pkUnique (tcolumns tb) (trows tb))"

definition sized :: "column list \<Rightarrow> val list list \<Rightarrow> bool" where
  "sized cols rows = list_all (\<lambda>r. length r = length cols) rows"

text \<open>
  A serialized record the table can take: it has an id, its property names differ
  (without regard to case), and each is the name of a column.
\<close>

definition storable :: "column list \<Rightarrow> jsrecord \<Rightarrow> bool" where
  "storable cols r =
     (getId r \<noteq> VNull \<and> distinct (map (\<lambda>(p, v). toLowerCase p) r) \<and>
      list_all (\<lambda>(p, v). hasColumn cols p) r)"

definition lowered :: "jsrecord \<Rightarrow> jsrecord" where
  "lowered r = map (\<lambda>(p, v). (toLowerCase p, v)) r"

text \<open>
  What the two statements of one record make of the rows of a table, and what the
  statements of a list of records make of them.
\<close>

definition upsertRows :: "column list \<Rightarrow> jsrecord \<Rightarrow> val list list \<Rightarrow> val list list" where
  "upsertRows cols r rows =
     (let updates = filter (\<lambda>(p, v). \<not> isId p) r;
          rows1 = (if getId r \<in> idOf cols ` set rows then rows
                   else rows @ [insertRow cols (map fst r) (map snd r)])
      in if updates = [] then rows1
         else map (\<lambda>row. if idOf cols row = getId r
                          then updateRow cols (map fst updates) (map snd updates) row else row) rows1)"

fun upsertAll :: "column list \<Rightarrow> jsrecord option list \<Rightarrow> val list list \<Rightarrow> val list list" where
  "upsertAll cols [] rows = rows"
| "upsertAll cols (None # rs) rows = upsertAll cols rs rows"
| "upsertAll cols (Some r # rs) rows = upsertAll cols rs (upsertRows cols r rows)"

text \<open>The rows hold a record: a row has its id and, in every column it names, its value.\<close>

definition holds :: "column list \<Rightarrow> val list list \<Rightarrow> jsrecord \<Rightarrow> bool" where
  "holds cols rows r =
     (\<exists>row \<in> set rows. idOf cols row = getId r \<and> (\<forall>(p, v) \<in> set r. cell cols row p = v))"

text \<open>
  The columns \<^verbatim>\<open>createTable\<close> gives a new table, and the columns \<^verbatim>\<open>addMissingColumns\<close>
  adds to a table that has the columns \<open>cols\<close>.
\<close>

definition createdColumns :: "tableDefinition \<Rightarrow> column list" where
  "createdColumns d =
     map (\<lambda>(columnName, columnType).
            \<lparr>cname = columnName, ctype = SqliteTypeOf columnType, cpk = isId columnName\<rparr>)
       (def_columns d)"

definition addedColumns :: "tableDefinition \<Rightarrow> column list \<Rightarrow> column list" where
  "addedColumns d cols =
     map (\<lambda>(columnName, columnType).
            \<lparr>cname = columnName, ctype = TypeToken columnType, cpk = False\<rparr>)
       (filter (\<lambda>(columnName, columnType). \<not> isExisting (existingColumns cols) columnName)
          (def_columns d))"

text \<open>The rows of a table whose id is the given one, compared as the lookup compares.\<close>

definition matching :: "table \<Rightarrow> val \<Rightarrow> val list list" where
  "matching tb i = filter (\<lambda>r. nocaseEq (idOf (tcolumns tb) r) i) (trows tb)"

section \<open>Sample stores\<close>

text \<open>
  A serializer that leaves records as they are, the table \<^verbatim>\<open>t\<close> with a string id and an
  integer column \<^verbatim>\<open>v\<close>, stores that hold it, an operation log beside it, a table
  definition of a thousand columns, a second definition of \<^verbatim>\<open>t\<close>, and a query.
\<close>

definition plainCodec :: codec where
  "plainCodec = \<lparr>serialize = (\<lambda>r cds. Inr r), deserialize = (\<lambda>r cds. Inr r)\<rparr>"

definition emptyStore :: store where
  "emptyStore = \<lparr>db = Map.empty, tableDefinitions = Map.empty\<rparr>"

definition todoDefinition :: tableDefinition where
  "todoDefinition = \<lparr>def_name = ''t'', def_columns = [(''id'', CTString), (''v'', CTInteger)]\<rparr>"

definition todoColumns :: "column list" where
  "todoColumns = [\<lparr>cname = ''id'', ctype = SqliteTypeOf CTString, cpk = True\<rparr>,
                  \<lparr>cname = ''v'', ctype = SqliteTypeOf CTInteger, cpk = False\<rparr>]"

definition todoTable :: "val list list \<Rightarrow> table" where
  "todoTable rows = \<lparr>tcolumns = todoColumns, trows = rows\<rparr>"

definition todoStore :: "val list list \<Rightarrow> store" where
  "todoStore rows = \<lparr>db = [''t'' \<mapsto> \<lparr>tcolumns = todoColumns, trows = rows\<rparr>],
                     tableDefinitions = [''t'' \<mapsto> todoDefinition]\<rparr>"

definition logColumns :: "column list" where
  "logColumns = [\<lparr>cname = ''id'', ctype = SqliteTypeOf CTInteger, cpk = True\<rparr>,
                 \<lparr>cname = ''tableName'', ctype = SqliteTypeOf CTString, cpk = False\<rparr>,
                 \<lparr>cname = ''action'', ctype = SqliteTypeOf CTString, cpk = False\<rparr>,
                 \<lparr>cname = ''itemId'', ctype = SqliteTypeOf CTString, cpk = False\<rparr>]"

definition logDefinition :: tableDefinition where
  "logDefinition = \<lparr>def_name = ''__operations'',
      def_columns = [(''id'', CTInteger), (''tableName'', CTString), (''action'', CTString),
                     (''itemId'', CTString)]\<rparr>"

definition syncStore :: "val list list \<Rightarrow> val list list \<Rightarrow> store" where
  "syncStore rows logRows =
     \<lparr>db = [''t'' \<mapsto> \<lparr>tcolumns = todoColumns, trows = rows\<rparr>,
             ''__operations'' \<mapsto> \<lparr>tcolumns = logColumns, trows = logRows\<rparr>],
      tableDefinitions = [''t'' \<mapsto> todoDefinition, ''__operations'' \<mapsto> logDefinition]\<rparr>"

definition sampleLog :: loggingOperation where
  "sampleLog st tableName action i =
     Inr (Some \<lparr>op_action = ''upsert'', op_tableName = ''__operations'',
                 op_data = Single [(''id'', VInt 1), (''tableName'', VStr tableName),
                                   (''action'', VStr action), (''itemId'', i)],
                 op_id = VNull\<rparr>)"

definition wideDefinition :: tableDefinition where
  "wideDefinition =
     \<lparr>def_name = ''wide'',
      def_columns = (''id'', CTString) #
        map (\<lambda>n. (replicate (Suc n) (CHR ''c''), CTInteger)) [0..<999]\<rparr>"

definition extDefinition :: tableDefinition where
  "extDefinition = \<lparr>def_name = ''t'',
      def_columns = [(''id'', CTString), (''V'', CTInteger), (''w'', CTString)]\<rparr>"

definition sampleQuery :: query where
  "sampleQuery = \<lparr>q_table = ''t'', q_selections = [''v''],
      q_filter = (\<lambda>r. getProp r ''v'' = VInt 1), q_ordering = (\<lambda>rs. rs),
      q_skip = 0, q_top = None, q_includeTotalCount = True\<rparr>"

section \<open>Proofs: ETag and version conversion\<close>

lemma quotesEscaped_Cons2:
  assumes "quotesEscaped (c # d # cs)"
  shows "c \<noteq> dquote"
    and "c = backslash \<and> d = dquote \<Longrightarrow> quotesEscaped cs"
    and "\<not> (c = backslash \<and> d = dquote) \<Longrightarrow> quotesEscaped (d # cs)"
proof -
  from assms show "c \<noteq> dquote" unfolding quotesEscaped_def by fastforce
next
  assume cd: "c = backslash \<and> d = dquote"
  show "quotesEscaped cs" unfolding quotesEscaped_def
  proof (intro allI impI)
    fix i assume i: "i < length cs" and q: "cs ! i = dquote"
    from assms i q have "(c # d # cs) ! (Suc (Suc i) - 1) = backslash"
      unfolding quotesEscaped_def by (metis length_Cons not_less_eq nth_Cons_Suc zero_less_Suc)
    then have *: "(d # cs) ! i = backslash" by simp
    show "0 < i \<and> cs ! (i - 1) = backslash"
    proof (cases i)
      case 0 with * cd show ?thesis by (simp add: dquote_def backslash_def)
    next
      case (Suc j) with * show ?thesis by simp
    qed
  qed
next
  assume ncd: "\<not> (c = backslash \<and> d = dquote)"
  show "quotesEscaped (d # cs)" unfolding quotesEscaped_def
  proof (intro allI impI)
    fix i assume i: "i < length (d # cs)" and q: "(d # cs) ! i = dquote"
    from assms i q have *: "(c # d # cs) ! (Suc i - 1) = backslash"
      unfolding quotesEscaped_def by (metis length_Cons not_less_eq nth_Cons_Suc zero_less_Suc)
    show "0 < i \<and> (d # cs) ! (i - 1) = backslash"
    proof (cases i)
      case 0 with * q ncd show ?thesis by simp
    next
      case (Suc j) with * show ?thesis by simp
    qed
  qed
qed

lemma escape_unescape: "quotesEscaped s \<Longrightarrow> escapeQuotes (unescapeQuotes s) = s"
proof (induction s rule: unescapeQuotes.induct)
  case (1 c d cs)
  from quotesEscaped_Cons2[OF "1.prems"] "1.IH" show ?case by auto
qed (auto simp: quotesEscaped_def)

lemma unescape_escape: "unescapeQuotes (escapeQuotes v) = v"
proof (induction v rule: escapeQuotes.induct)
  case 1 show ?case by simp
next
  case (2 c cs)
  show ?case
  proof (cases "c = dquote")
    case True with 2 show ?thesis by simp
  next
    case False
    show ?thesis
    proof (cases "escapeQuotes cs")
      case Nil with 2 False show ?thesis by simp
    next
      case (Cons e es)
      have "\<not> (c = backslash \<and> e = dquote)"
      proof
        assume "c = backslash \<and> e = dquote"
        with Cons have "escapeQuotes cs = dquote # es" by simp
        then show False by (cases cs) (auto simp: dquote_def backslash_def split: if_splits)
      qed
      with 2 False Cons show ?thesis by auto
    qed
  qed
qed

text \<open>
  Going the other way round always works: a version converted to an ETag and back
  is the version again.
\<close>

lemma version_etag_version: "getVersionFromEtag (getEtagFromVersion v) = v"
  by (simp add: getEtagFromVersion_def getVersionFromEtag_def Let_def unescape_escape nth_append)

text \<open>
  C3, as stated: for every ETag string \<open>E\<close>,
  \<open>getEtagFromVersion (getVersionFromEtag E) = E\<close>. This fails for an ETag that is
  not wrapped in double quotes, such as the weak entity tag \<^verbatim>\<open>W/"a"\<close>: nothing is
  stripped, and the way back escapes the inner quotes and adds a new pair around the
  whole string.
\<close>

theorem etag_roundtrip_counterexample:
  "getEtagFromVersion (getVersionFromEtag weakEtag) \<noteq> weakEtag"
  by (simp add: getEtagFromVersion_def getVersionFromEtag_def weakEtag_def Let_def
      dquote_def backslash_def)

text \<open>
  C3, amended: for every ETag \<open>E\<close> that consists of a pair of double quotes around a
  string in which every double quote is directly preceded by a backslash, converting
  \<open>E\<close> to a version and that version back to an ETag yields \<open>E\<close> again.
\<close>

theorem etag_roundtrip_quoted:
  "quotesEscaped s \<Longrightarrow>
   getEtagFromVersion (getVersionFromEtag ([dquote] @ s @ [dquote])) = [dquote] @ s @ [dquote]"
  by (simp add: getEtagFromVersion_def getVersionFromEtag_def Let_def escape_unescape nth_append)

theorem etag_roundtrip_quoted_witness:
  "quotesEscaped [CHR ''a'', backslash, dquote, CHR ''b''] \<and>
   getEtagFromVersion (getVersionFromEtag
     ([dquote] @ [CHR ''a'', backslash, dquote, CHR ''b''] @ [dquote]))
     = [dquote] @ [CHR ''a'', backslash, dquote, CHR ''b''] @ [dquote]"
proof -
  have h: "quotesEscaped [CHR ''a'', backslash, dquote, CHR ''b'']"
    unfolding quotesEscaped_def
    by (auto simp: dquote_def backslash_def less_Suc_eq)
  from h etag_roundtrip_quoted [OF h] show ?thesis by blast
qed

section \<open>Proofs: the engine\<close>

lemma toLowerCase_id [simp]: "toLowerCase idPropertyName = idPropertyName"
  by (simp add: toLowerCase_def idPropertyName_def toLowerChar_def)

lemma map_of_zip_map_keys:
  "map_of (zip ks (map h ks)) k = (if k \<in> set ks then Some (h k) else None)"
  by (induction ks) auto

text \<open>
  The values of the row an INSERT writes and of the row an UPDATE leaves, column by
  column.
\<close>

lemma cell_insertRow:
  "cell cols (insertRow cols names vals) n =
     (if hasColumn cols n then (case assigned names vals n of None \<Rightarrow> VNull | Some v \<Rightarrow> v) else VNull)"
proof -
  let ?h = "\<lambda>k. case map_of (zip (map toLowerCase names) vals) k of None \<Rightarrow> VNull | Some v \<Rightarrow> v"
  have "insertRow cols names vals = map ?h (columnNames cols)"
    by (simp add: insertRow_def columnNames_def assigned_def)
  then show ?thesis
    by (simp add: cell_def map_of_zip_map_keys hasColumn_def assigned_def)
qed

lemma map_of_zip_update:
  "length r = length cols \<Longrightarrow>
   map_of (zip (map g cols) (map (\<lambda>(c, old). case h (g c) of None \<Rightarrow> old | Some v \<Rightarrow> v) (zip cols r))) k
   = map_option (\<lambda>old. case h k of None \<Rightarrow> old | Some v \<Rightarrow> v) (map_of (zip (map g cols) r) k)"
  by (induction r cols rule: list_induct2) auto

lemma cell_updateRow:
  assumes "length r = length cols"
  shows "cell cols (updateRow cols names vals r) n =
     (if hasColumn cols n
      then (case assigned (rev names) (rev vals) n of None \<Rightarrow> cell cols r n | Some v \<Rightarrow> v)
      else VNull)"
proof -
  let ?h = "\<lambda>k. map_of (zip (map toLowerCase (rev names)) (rev vals)) k"
  have u: "updateRow cols names vals r =
        map (\<lambda>(c, old). case ?h (toLowerCase (cname c)) of None \<Rightarrow> old | Some v \<Rightarrow> v) (zip cols r)"
    by (simp add: updateRow_def assigned_def)
  have "map_of (zip (columnNames cols) (updateRow cols names vals r)) (toLowerCase n)
        = map_option (\<lambda>old. case ?h (toLowerCase n) of None \<Rightarrow> old | Some v \<Rightarrow> v)
            (map_of (zip (columnNames cols) r) (toLowerCase n))"
    unfolding u columnNames_def
    using map_of_zip_update[OF assms, of "\<lambda>c. toLowerCase (cname c)" ?h "toLowerCase n"] by simp
  moreover have "hasColumn cols n \<longleftrightarrow> map_of (zip (columnNames cols) r) (toLowerCase n) \<noteq> None"
  proof -
    have "fst ` set (zip (columnNames cols) r) = set (columnNames cols)"
      using assms by (metis columnNames_def length_map map_fst_zip set_map)
    then show ?thesis by (simp add: hasColumn_def map_of_eq_None_iff)
  qed
  ultimately show ?thesis
    by (auto simp: cell_def assigned_def split: option.splits)
qed

lemma length_insertRow [simp]: "length (insertRow cols names vals) = length cols"
  by (simp add: insertRow_def)

lemma length_updateRow [simp]: "length r = length cols \<Longrightarrow> length (updateRow cols names vals r) = length cols"
  by (simp add: updateRow_def)

text \<open>
  In a table keyed by its id column, the key of a row is its id, two rows are in
  conflict when they have the same id, and the primary key is unique when the ids that
  are not NULL differ.
\<close>

lemma pkValues_id:
  assumes "distinct (columnNames cols)"
    and "idPropertyName \<in> set (columnNames cols)"
    and "list_all (\<lambda>c. cpk c = (toLowerCase (cname c) = idPropertyName)) cols"
    and "length r = length cols"
  shows "pkValues cols r = [idOf cols r]"
  using assms(4,1,2,3)
proof (induction r cols rule: list_induct2)
  case Nil then show ?case by (simp add: columnNames_def)
next
  case (Cons v vs c cs)
  show ?case
  proof (cases "toLowerCase (cname c) = idPropertyName")
    case True
    with Cons.prems have "idPropertyName \<notin> set (columnNames cs)" by (simp add: columnNames_def)
    with Cons.prems have nin: "idPropertyName \<notin> set (columnNames cs)"
      by (simp add: columnNames_def)
    have "list_all (\<lambda>c. \<not> cpk c) cs"
      unfolding list_all_iff
    proof
      fix ca assume ca: "ca \<in> set cs"
      from Cons.prems(3) ca have "cpk ca = (toLowerCase (cname ca) = idPropertyName)"
        by (simp add: list_all_iff)
      moreover from ca have "toLowerCase (cname ca) \<in> set (columnNames cs)"
        by (simp add: columnNames_def)
      ultimately show "\<not> cpk ca" using nin by auto
    qed
    then have "filter (\<lambda>(c, v). cpk c) (zip cs vs) = []"
      by (auto simp: filter_empty_conv list_all_iff dest: set_zip_leftD)
    with True Cons.prems show ?thesis
      by (simp add: pkValues_def idOf_def cell_def columnNames_def)
  next
    case False
    with Cons.prems have "pkValues cs vs = [idOf cs vs]"
      by (intro Cons.IH) (auto simp: columnNames_def)
    with False Cons.prems show ?thesis
      by (simp add: pkValues_def idOf_def cell_def columnNames_def)
  qed
qed

lemma idKeyed_alt:
  "idKeyed tb = (keyCols (tcolumns tb) \<and> list_all (\<lambda>r. length r = length (tcolumns tb)) (trows tb)
      \<and> pkUnique (tcolumns tb) (trows tb))"
  by (auto simp: idKeyed_def keyCols_def)

lemma pkConflict_id:
  assumes "keyCols cols" "length r1 = length cols" "length r2 = length cols"
  shows "pkConflict cols r1 r2 \<longleftrightarrow> (idOf cols r1 \<noteq> VNull \<and> idOf cols r1 = idOf cols r2)"
  using assms pkValues_id[of cols r1] pkValues_id[of cols r2]
  by (auto simp: pkConflict_def keyCols_def)

lemma pkUnique_ids:
  assumes "keyCols cols" "list_all (\<lambda>r. length r = length cols) rows"
  shows "pkUnique cols rows \<longleftrightarrow> distinct (filter (\<lambda>i. i \<noteq> VNull) (map (idOf cols) rows))"
  using assms(2)
proof (induction rows)
  case Nil show ?case by simp
next
  case (Cons r rs)
  have "list_all (\<lambda>r'. \<not> pkConflict cols r r') rs
        \<longleftrightarrow> (idOf cols r = VNull \<or> idOf cols r \<notin> idOf cols ` set rs)"
    using Cons.prems pkConflict_id[OF assms(1), of r]
    by (auto simp: list_all_iff)
  with Cons show ?case by auto
qed

lemma hasColumn_id: "keyCols cols \<Longrightarrow> hasColumn cols idPropertyName"
  by (simp add: keyCols_def hasColumn_def)

lemma assigned_record:
  "assigned (map fst r) (map snd r) n = map_of (map (\<lambda>(p, v). (toLowerCase p, v)) r) (toLowerCase n)"
proof -
  have "zip (map toLowerCase (map fst r)) (map snd r) = map (\<lambda>(p, v). (toLowerCase p, v)) r"
    by (induction r) auto
  then show ?thesis by (simp add: assigned_def)
qed

lemma lowered_simps [simp]: "lowered [] = []" "lowered ((p, v) # r) = (toLowerCase p, v) # lowered r"
  by (simp_all add: lowered_def)

lemma fst_lowered: "map fst (lowered r) = map (\<lambda>(p, v). toLowerCase p) r"
  by (induction r) auto

lemma assigned_lowered: "assigned (map fst r) (map snd r) n = map_of (lowered r) (toLowerCase n)"
  by (simp only: assigned_record lowered_def)

lemma assigned_member:
  assumes "distinct (map (\<lambda>(p, v). toLowerCase p) r)" "(p, v) \<in> set r"
  shows "assigned (map fst r) (map snd r) p = Some v"
proof -
  from assms(1) have "distinct (map fst (lowered r))" by (simp only: fst_lowered)
  moreover from assms(2) have "(toLowerCase p, v) \<in> set (lowered r)"
    by (force simp: lowered_def)
  ultimately show ?thesis by (simp only: assigned_lowered map_of_is_SomeI)
qed

lemma getId_member: "getId r \<noteq> VNull \<Longrightarrow> (idPropertyName, getId r) \<in> set r"
  by (auto simp: getId_def getProp_def split: option.splits dest: map_of_SomeD)

lemma map_of_rev_distinct: "distinct (map fst xs) \<Longrightarrow> map_of (rev xs) = map_of xs"
proof (induction xs)
  case Nil show ?case by simp
next
  case (Cons a xs)
  obtain k v where a: "a = (k, v)" by (cases a)
  with Cons.prems have "map_of xs k = None" by (simp add: map_of_eq_None_iff)
  with Cons a show ?case
    by (auto simp: map_add_def fun_eq_iff split: option.splits)
qed

lemma assigned_rev:
  assumes "distinct (map toLowerCase names)" "length names = length vals"
  shows "assigned (rev names) (rev vals) n = assigned names vals n"
proof -
  have "zip (map toLowerCase (rev names)) (rev vals) = rev (zip (map toLowerCase names) vals)"
    using assms(2) by (metis length_map rev_map zip_rev)
  moreover have "distinct (map fst (zip (map toLowerCase names) vals))"
    using assms by (simp add: map_fst_zip)
  ultimately show ?thesis by (simp add: assigned_def map_of_rev_distinct)
qed

lemma lowered_updates:
  assumes "distinct (map fst (lowered r))" "(idPropertyName, i) \<in> set r"
  shows "map_of (lowered (filter (\<lambda>(p, v). \<not> isId p) r)) k
         = (if k = idPropertyName then None else map_of (lowered r) k)"
  using assms
proof (induction r)
  case Nil then show ?case by simp
next
  case (Cons a r)
  obtain p v where a: "a = (p, v)" by (cases a)
  show ?case
  proof (cases "p = idPropertyName")
    case True
    with Cons.prems a have nin: "idPropertyName \<notin> set (map fst (lowered r))"
      by simp
    have "\<And>q w. (q, w) \<in> set r \<Longrightarrow> q \<noteq> idPropertyName"
    proof
      fix q w assume "(q, w) \<in> set r" "q = idPropertyName"
      then have "(idPropertyName, w) \<in> set (lowered r)" by (force simp: lowered_def)
      with nin show False by force
    qed
    then have "filter (\<lambda>(p, v). \<not> isId p) r = r"
      by (auto simp: filter_id_conv isId_def)
    moreover have "map_of (lowered r) idPropertyName = None"
      using nin by (simp add: map_of_eq_None_iff)
    ultimately show ?thesis using True a
      by (simp add: isId_def)
  next
    case False
    with Cons.prems a have mem: "(idPropertyName, i) \<in> set r" by auto
    then have "(idPropertyName, i) \<in> set (lowered r)" by (force simp: lowered_def)
    with Cons.prems a have "toLowerCase p \<noteq> idPropertyName"
      by force
    moreover from Cons.prems a have "distinct (map fst (lowered r))" by simp
    ultimately show ?thesis using Cons.IH mem a False
      by (auto simp: isId_def)
  qed
qed

lemma assigned_updates:
  assumes "distinct (map (\<lambda>(p, v). toLowerCase p) r)" "(idPropertyName, i) \<in> set r"
  shows "assigned (map fst (filter (\<lambda>(p, v). \<not> isId p) r)) (map snd (filter (\<lambda>(p, v). \<not> isId p) r)) n
         = (if toLowerCase n = idPropertyName then None else assigned (map fst r) (map snd r) n)"
proof -
  from assms(1) have "distinct (map fst (lowered r))" by (simp only: fst_lowered)
  from lowered_updates[OF this assms(2)] show ?thesis by (simp only: assigned_lowered)
qed

section \<open>Proofs: the statements of upsert\<close>

lemma storable_names:
  assumes "storable cols r"
  shows "map fst r \<noteq> []" "list_all (hasColumn cols) (map fst r)"
    "distinct (map toLowerCase (map fst r))" "(idPropertyName, getId r) \<in> set r"
    "distinct (map (\<lambda>(p, v). toLowerCase p) r)"
proof -
  from assms show m: "(idPropertyName, getId r) \<in> set r" by (simp add: storable_def getId_member)
  then show "map fst r \<noteq> []" by auto
  from assms show "list_all (hasColumn cols) (map fst r)"
    by (auto simp: storable_def list_all_iff)
  from assms show d: "distinct (map (\<lambda>(p, v). toLowerCase p) r)" by (simp add: storable_def)
  from d show "distinct (map toLowerCase (map fst r))" by (simp add: case_prod_unfold comp_def)
qed

lemma idOf_insertRow:
  assumes "keyCols cols" "storable cols r"
  shows "idOf cols (insertRow cols (map fst r) (map snd r)) = getId r"
  using assms storable_names[OF assms(2)]
  by (simp add: idOf_def cell_insertRow hasColumn_id assigned_member)

lemma updates_names:
  assumes "storable cols r"
  defines "updates \<equiv> filter (\<lambda>(p, v). \<not> isId p) r"
  shows "list_all (hasColumn cols) (map fst updates)"
    "distinct (map toLowerCase (map fst updates))"
    "assigned (rev (map fst updates)) (rev (map snd updates)) n
       = (if toLowerCase n = idPropertyName then None else assigned (map fst r) (map snd r) n)"
proof -
  note s = storable_names[OF assms(1)]
  from s(2) show "list_all (hasColumn cols) (map fst updates)"
    by (auto simp: list_all_iff updates_def)
  have "distinct (map (\<lambda>(p, v). toLowerCase p) updates)"
    unfolding updates_def using s(5) by (rule distinct_map_filter)
  then show d: "distinct (map toLowerCase (map fst updates))"
    by (simp add: case_prod_unfold comp_def)
  have "assigned (rev (map fst updates)) (rev (map snd updates)) n
        = assigned (map fst updates) (map snd updates) n"
    using d by (intro assigned_rev) simp_all
  then show "assigned (rev (map fst updates)) (rev (map snd updates)) n
       = (if toLowerCase n = idPropertyName then None else assigned (map fst r) (map snd r) n)"
    unfolding updates_def using assigned_updates[OF s(5) s(4)] by simp
qed

lemma idOf_updateRow:
  assumes "keyCols cols" "storable cols r" "length row = length cols"
  shows "idOf cols (updateRow cols (map fst (filter (\<lambda>(p, v). \<not> isId p) r))
            (map snd (filter (\<lambda>(p, v). \<not> isId p) r)) row) = idOf cols row"
  using assms
  by (simp add: idOf_def cell_updateRow updates_names(3) hasColumn_id)

lemma map_upd_same: "d t = Some tb \<Longrightarrow> d(t \<mapsto> tb) = d"
  by (auto simp: fun_eq_iff)

text \<open>
  The two statements of one storable record run without an error on a table keyed by
  its id column, leave \<open>upsertRows\<close> and keep the table keyed.
\<close>

lemma exec_upsert_record:
  assumes k: "keyCols cols" and sz: "sized cols rows" and u: "pkUnique cols rows"
    and d: "d t = Some tb" and tb: "tcolumns tb = cols" "trows tb = rows"
    and s: "storable cols r"
  shows "executeAll (upsertStatements t (Some r)) d = Inr (d(t \<mapsto> tb\<lparr>trows := upsertRows cols r rows\<rparr>))"
    and "sized cols (upsertRows cols r rows)"
    and "pkUnique cols (upsertRows cols r rows)"
proof -
  note sn = storable_names[OF s]
  define updates where "updates = filter (\<lambda>(p, v). \<not> isId p) r"
  define new where "new = insertRow cols (map fst r) (map snd r)"
  define rows1 where "rows1 = (if getId r \<in> idOf cols ` set rows then rows else rows @ [new])"
  define rows2 where "rows2 = map (\<lambda>row. if idOf cols row = getId r
      then updateRow cols (map fst updates) (map snd updates) row else row) rows1"
  have nn: "getId r \<noteq> VNull" using s by (simp add: storable_def)
  have idnew: "idOf cols new = getId r" unfolding new_def by (rule idOf_insertRow[OF k s])
  have conflict: "list_ex (pkConflict cols new) rows \<longleftrightarrow> getId r \<in> idOf cols ` set rows"
    using sz pkConflict_id[OF k, of new] idnew nn
    by (auto simp: list_ex_iff sized_def list_all_iff new_def)
  have ins: "executeSql (InsertOrIgnore t (map fst r) (map snd r)) d = Inr (d(t \<mapsto> tb\<lparr>trows := rows1\<rparr>))"
    using d tb sn(1,2) conflict
    by (auto simp: rows1_def new_def Let_def map_upd_same)
  have sz1: "sized cols rows1" using sz by (simp add: rows1_def sized_def new_def)
  have ids1: "distinct (filter (\<lambda>i. i \<noteq> VNull) (map (idOf cols) rows1))"
    using u sz pkUnique_ids[OF k, of rows] idnew
    by (auto simp: rows1_def sized_def)
  have sz2: "sized cols rows2" using sz1 by (auto simp: rows2_def sized_def list_all_iff)
  have "map (idOf cols) rows2 = map (idOf cols) rows1"
    using sz1 idOf_updateRow[OF k s]
    by (auto simp: rows2_def sized_def list_all_iff updates_def)
  with ids1 have u2: "pkUnique cols rows2"
    using pkUnique_ids[OF k, of rows2] sz2 by (simp add: sized_def)
  have u1: "pkUnique cols rows1"
    using pkUnique_ids[OF k, of rows1] sz1 ids1 by (simp add: sized_def)
  have res: "upsertRows cols r rows = (if updates = [] then rows1 else rows2)"
    by (simp add: upsertRows_def Let_def updates_def rows1_def rows2_def new_def)
  show "sized cols (upsertRows cols r rows)" using sz1 sz2 by (simp add: res)
  show "pkUnique cols (upsertRows cols r rows)" using u1 u2 by (simp add: res)
  show "executeAll (upsertStatements t (Some r)) d = Inr (d(t \<mapsto> tb\<lparr>trows := upsertRows cols r rows\<rparr>))"
  proof (cases "updates = []")
    case True
    with ins show ?thesis by (simp add: res updates_def Let_def)
  next
    case False
    have upd: "executeSql (UpdateById t (map fst updates) (map snd updates) (getId r))
                 (d(t \<mapsto> tb\<lparr>trows := rows1\<rparr>))
               = Inr (d(t \<mapsto> tb\<lparr>trows := rows2\<rparr>))"
      using False tb updates_names(1)[OF s, folded updates_def] hasColumn_id[OF k] nn u2
      by (simp add: rows2_def idOf_def Let_def cong: if_cong)
    with False ins show ?thesis
      by (simp add: res updates_def[symmetric] Let_def)
  qed
qed

lemma cell_lower: "toLowerCase p = toLowerCase q \<Longrightarrow> cell cols row p = cell cols row q"
  by (simp add: cell_def)

lemma id_property_unique:
  assumes "storable cols r" "(p, v) \<in> set r" "toLowerCase p = idPropertyName"
  shows "p = idPropertyName \<and> v = getId r"
proof -
  note sn = storable_names[OF assms(1)]
  from sn(5) have d: "distinct (map fst (lowered r))" by (simp only: fst_lowered)
  from assms(2,3) have "(idPropertyName, v) \<in> set (lowered r)" by (force simp: lowered_def)
  moreover from sn(4) have "(idPropertyName, getId r) \<in> set (lowered r)" by (force simp: lowered_def)
  ultimately have v: "v = getId r" using d by (meson eq_key_imp_eq_value)
  from sn(5) have "inj_on (\<lambda>(p, v). toLowerCase p) (set r)" by (simp add: distinct_map)
  moreover have "(\<lambda>(p, v). toLowerCase p) (p, v) = (\<lambda>(p, v). toLowerCase p) (idPropertyName, getId r)"
    using assms(3) by simp
  ultimately have "(p, v) = (idPropertyName, getId r)"
    using assms(2) sn(4) by (rule inj_onD)
  then show ?thesis by simp
qed

lemma cells_updateRow:
  assumes k: "keyCols cols" and s: "storable cols r" and l: "length row = length cols"
    and i: "idOf cols row = getId r" and m: "(p, v) \<in> set r"
  shows "cell cols (updateRow cols (map fst (filter (\<lambda>(p, v). \<not> isId p) r))
            (map snd (filter (\<lambda>(p, v). \<not> isId p) r)) row) p = v"
proof -
  note sn = storable_names[OF s]
  from sn(2) m have hc: "hasColumn cols p" by (auto simp: list_all_iff)
  show ?thesis
  proof (cases "toLowerCase p = idPropertyName")
    case True
    with id_property_unique[OF s m] i l hc show ?thesis
      by (simp add: cell_updateRow updates_names(3)[OF s] idOf_def)
  next
    case False
    with l hc assigned_member[OF sn(5) m] show ?thesis
      by (simp add: cell_updateRow updates_names(3)[OF s])
  qed
qed

lemma only_id:
  assumes s: "storable cols r" and e: "filter (\<lambda>(p, v). \<not> isId p) r = []" and m: "(p, v) \<in> set r"
  shows "p = idPropertyName \<and> v = getId r"
proof -
  from e m have "p = idPropertyName" by (auto simp: filter_empty_conv isId_def)
  with id_property_unique[OF s m] show ?thesis by simp
qed

lemma upserted_cells:
  assumes k: "keyCols cols" and sz: "sized cols rows" and s: "storable cols r"
    and row: "row \<in> set (upsertRows cols r rows)" and i: "idOf cols row = getId r"
    and m: "(p, v) \<in> set r"
  shows "cell cols row p = v"
proof (cases "filter (\<lambda>(p, v). \<not> isId p) r = []")
  case True
  from only_id[OF s True m] i show ?thesis by (simp add: idOf_def)
next
  case False
  define rows1 where "rows1 = (if getId r \<in> idOf cols ` set rows then rows
       else rows @ [insertRow cols (map fst r) (map snd r)])"
  have sz1: "sized cols rows1" using sz by (simp add: rows1_def sized_def)
  from row False obtain row0 where r0: "row0 \<in> set rows1"
    and eq: "row = (if idOf cols row0 = getId r
       then updateRow cols (map fst (filter (\<lambda>(p, v). \<not> isId p) r))
              (map snd (filter (\<lambda>(p, v). \<not> isId p) r)) row0 else row0)"
    by (auto simp: upsertRows_def Let_def rows1_def[symmetric])
  from r0 sz1 have l: "length row0 = length cols" by (simp add: sized_def list_all_iff)
  show ?thesis
  proof (cases "idOf cols row0 = getId r")
    case True
    with eq cells_updateRow[OF k s l True m] show ?thesis by simp
  next
    case False
    with eq i show ?thesis by simp
  qed
qed

lemma upserted_exists:
  assumes k: "keyCols cols" and sz: "sized cols rows" and s: "storable cols r"
  shows "\<exists>row \<in> set (upsertRows cols r rows). idOf cols row = getId r"
proof -
  define rows1 where "rows1 = (if getId r \<in> idOf cols ` set rows then rows
       else rows @ [insertRow cols (map fst r) (map snd r)])"
  have sz1: "sized cols rows1" using sz by (simp add: rows1_def sized_def)
  have "\<exists>row0 \<in> set rows1. idOf cols row0 = getId r"
    using idOf_insertRow[OF k s] by (auto simp: rows1_def)
  then obtain row0 where r0: "row0 \<in> set rows1" and i0: "idOf cols row0 = getId r" by blast
  from r0 sz1 have l: "length row0 = length cols" by (simp add: sized_def list_all_iff)
  show ?thesis
  proof (cases "filter (\<lambda>(p, v). \<not> isId p) r = []")
    case True
    with r0 i0 show ?thesis by (auto simp: upsertRows_def Let_def rows1_def[symmetric])
  next
    case False
    let ?row = "updateRow cols (map fst (filter (\<lambda>(p, v). \<not> isId p) r))
              (map snd (filter (\<lambda>(p, v). \<not> isId p) r)) row0"
    from r0 i0 False have "?row \<in> set (upsertRows cols r rows)"
      by (force simp: upsertRows_def Let_def rows1_def[symmetric])
    moreover have "idOf cols ?row = getId r" using idOf_updateRow[OF k s l] i0 by simp
    ultimately show ?thesis by blast
  qed
qed

lemma holds_upsertRows:
  assumes "keyCols cols" "sized cols rows" "storable cols r"
  shows "holds cols (upsertRows cols r rows) r"
  using upserted_exists[OF assms] upserted_cells[OF assms]
  unfolding holds_def by blast

lemma filter_map_same:
  "(\<And>x. x \<in> set xs \<Longrightarrow> P (f x) = P x \<and> (P x \<longrightarrow> f x = x)) \<Longrightarrow> filter P (map f xs) = filter P xs"
  by (induction xs) auto

lemma others_upsertRows:
  assumes k: "keyCols cols" and sz: "sized cols rows" and s: "storable cols r"
  shows "filter (\<lambda>row. idOf cols row \<noteq> getId r) (upsertRows cols r rows)
         = filter (\<lambda>row. idOf cols row \<noteq> getId r) rows"
proof -
  define rows1 where "rows1 = (if getId r \<in> idOf cols ` set rows then rows
       else rows @ [insertRow cols (map fst r) (map snd r)])"
  have sz1: "sized cols rows1" using sz by (simp add: rows1_def sized_def)
  have f1: "filter (\<lambda>row. idOf cols row \<noteq> getId r) rows1 = filter (\<lambda>row. idOf cols row \<noteq> getId r) rows"
    using idOf_insertRow[OF k s] by (simp add: rows1_def)
  show ?thesis
  proof (cases "filter (\<lambda>(p, v). \<not> isId p) r = []")
    case True
    with f1 show ?thesis by (simp add: upsertRows_def Let_def rows1_def[symmetric])
  next
    case False
    have "filter (\<lambda>row. idOf cols row \<noteq> getId r)
            (map (\<lambda>row. if idOf cols row = getId r
                then updateRow cols (map fst (filter (\<lambda>(p, v). \<not> isId p) r))
                       (map snd (filter (\<lambda>(p, v). \<not> isId p) r)) row else row) rows1)
          = filter (\<lambda>row. idOf cols row \<noteq> getId r) rows1"
    proof (rule filter_map_same)
      fix x assume "x \<in> set rows1"
      with sz1 have "length x = length cols" by (simp add: sized_def list_all_iff)
      from idOf_updateRow[OF k s this]
      show "(idOf cols (if idOf cols x = getId r
                then updateRow cols (map fst (filter (\<lambda>(p, v). \<not> isId p) r))
                       (map snd (filter (\<lambda>(p, v). \<not> isId p) r)) x else x) \<noteq> getId r)
             = (idOf cols x \<noteq> getId r) \<and>
            (idOf cols x \<noteq> getId r \<longrightarrow> (if idOf cols x = getId r
                then updateRow cols (map fst (filter (\<lambda>(p, v). \<not> isId p) r))
                       (map snd (filter (\<lambda>(p, v). \<not> isId p) r)) x else x) = x)"
        by simp
    qed
    with False f1 show ?thesis by (simp add: upsertRows_def Let_def rows1_def[symmetric])
  qed
qed

lemma holds_kept:
  assumes k: "keyCols cols" and sz: "sized cols rows" and s: "storable cols r'"
    and h: "holds cols rows r" and ne: "getId r' \<noteq> getId r"
  shows "holds cols (upsertRows cols r' rows) r"
proof -
  from h obtain row where row: "row \<in> set rows" "idOf cols row = getId r"
    "\<forall>(p, v) \<in> set r. cell cols row p = v" unfolding holds_def by blast
  with ne have "row \<in> set (filter (\<lambda>row. idOf cols row \<noteq> getId r') rows)" by simp
  then have "row \<in> set (filter (\<lambda>row. idOf cols row \<noteq> getId r') (upsertRows cols r' rows))"
    by (simp only: others_upsertRows[OF k sz s])
  with row show ?thesis unfolding holds_def by auto
qed

lemma executeAll_append:
  "executeAll (a @ b) d = (case executeAll a d of Inl e \<Rightarrow> Inl e | Inr d' \<Rightarrow> executeAll b d')"
  by (induction a arbitrary: d) (auto split: sum.splits)

lemma exec_upsert_all:
  assumes "keyCols cols"
  shows "sized cols rows \<Longrightarrow> pkUnique cols rows \<Longrightarrow> d t = Some tb \<Longrightarrow> tcolumns tb = cols \<Longrightarrow>
     trows tb = rows \<Longrightarrow> (\<And>r. Some r \<in> set recs \<Longrightarrow> storable cols r) \<Longrightarrow>
     executeAll (concat (map (upsertStatements t) recs)) d
       = Inr (d(t \<mapsto> tb\<lparr>trows := upsertAll cols recs rows\<rparr>))
     \<and> sized cols (upsertAll cols recs rows) \<and> pkUnique cols (upsertAll cols recs rows)"
proof (induction recs arbitrary: d tb rows)
  case Nil
  then show ?case by (simp add: map_upd_same)
next
  case (Cons x recs)
  show ?case
  proof (cases x)
    case None
    with Cons show ?thesis by simp
  next
    case (Some r)
    with Cons.prems have s: "storable cols r" by simp
    note step = exec_upsert_record[where d=d and t=t and tb=tb, OF assms Cons.prems(1,2,3,4,5) s]
    let ?tb = "tb\<lparr>trows := upsertRows cols r rows\<rparr>"
    have "executeAll (concat (map (upsertStatements t) recs)) (d(t \<mapsto> ?tb))
       = Inr ((d(t \<mapsto> ?tb))(t \<mapsto> ?tb\<lparr>trows := upsertAll cols recs (upsertRows cols r rows)\<rparr>))
     \<and> sized cols (upsertAll cols recs (upsertRows cols r rows))
     \<and> pkUnique cols (upsertAll cols recs (upsertRows cols r rows))"
      using Cons.prems step(2,3) by (intro Cons.IH) auto
    with step(1) Some show ?thesis
      by (auto simp: executeAll_append fun_eq_iff simp del: upsertStatements.simps)
  qed
qed

lemma sized_upsertAll:
  assumes "keyCols cols"
  shows "sized cols rows \<Longrightarrow> pkUnique cols rows \<Longrightarrow> (\<And>r. Some r \<in> set recs \<Longrightarrow> storable cols r) \<Longrightarrow>
    sized cols (upsertAll cols recs rows) \<and> pkUnique cols (upsertAll cols recs rows)"
proof (induction recs arbitrary: rows)
  case Nil then show ?case by simp
next
  case (Cons x recs)
  show ?case
  proof (cases x)
    case None with Cons show ?thesis by simp
  next
    case (Some r)
    with Cons.prems have s: "storable cols r" by simp
    let ?tb = "\<lparr>tcolumns = cols, trows = rows\<rparr>"
    have "sized cols (upsertRows cols r rows)" "pkUnique cols (upsertRows cols r rows)"
      using exec_upsert_record(2,3)[where d="[''t'' \<mapsto> ?tb]" and t="''t''" and tb="?tb",
          OF assms Cons.prems(1,2) _ _ _ s]
      by simp_all
    with Cons Some show ?thesis by simp
  qed
qed

lemma holds_upsertAll_kept:
  assumes "keyCols cols"
  shows "sized cols rows \<Longrightarrow> pkUnique cols rows \<Longrightarrow> (\<And>r'. Some r' \<in> set recs \<Longrightarrow> storable cols r') \<Longrightarrow>
    (\<And>r'. Some r' \<in> set recs \<Longrightarrow> getId r' \<noteq> getId r) \<Longrightarrow> holds cols rows r \<Longrightarrow>
    holds cols (upsertAll cols recs rows) r"
proof (induction recs arbitrary: rows)
  case Nil then show ?case by simp
next
  case (Cons x recs)
  show ?case
  proof (cases x)
    case None with Cons show ?thesis by simp
  next
    case (Some r')
    with Cons.prems have s: "storable cols r'" and ne: "getId r' \<noteq> getId r" by simp_all
    have "sized cols (upsertRows cols r' rows)" "pkUnique cols (upsertRows cols r' rows)"
      using sized_upsertAll[OF assms Cons.prems(1,2), of "[Some r']"] s by simp_all
    moreover have "holds cols (upsertRows cols r' rows) r"
      using holds_kept[OF assms Cons.prems(1) s Cons.prems(5) ne] .
    ultimately show ?thesis using Cons.IH[of "upsertRows cols r' rows"] Cons.prems(3,4) Some
      by simp
  qed
qed

lemma upsertAll_append:
  "upsertAll cols (a @ b) rows = upsertAll cols b (upsertAll cols a rows)"
  by (induction cols a rows rule: upsertAll.induct) auto

lemma holds_upsertAll:
  assumes k: "keyCols cols" and sz: "sized cols rows" and u: "pkUnique cols rows"
    and s: "\<And>r'. Some r' \<in> set recs \<Longrightarrow> storable cols r'"
    and dec: "recs = pre @ Some r # post"
    and last: "\<And>r'. Some r' \<in> set post \<Longrightarrow> getId r' \<noteq> getId r"
  shows "holds cols (upsertAll cols recs rows) r"
proof -
  have 1: "sized cols (upsertAll cols pre rows) \<and> pkUnique cols (upsertAll cols pre rows)"
    using s dec by (intro sized_upsertAll[OF k sz u]) auto
  from s dec have sr: "storable cols r" by simp
  have 2: "sized cols (upsertAll cols (pre @ [Some r]) rows) \<and> pkUnique cols (upsertAll cols (pre @ [Some r]) rows)"
    using s dec by (intro sized_upsertAll[OF k sz u]) auto
  have "holds cols (upsertRows cols r (upsertAll cols pre rows)) r"
    using holds_upsertRows[OF k _ sr] 1 by blast
  then have 3: "holds cols (upsertAll cols (pre @ [Some r]) rows) r"
    by (simp add: upsertAll_append)
  have "holds cols (upsertAll cols post (upsertAll cols (pre @ [Some r]) rows)) r"
    using 2 3 s dec last
      holds_upsertAll_kept[OF k, of "upsertAll cols (pre @ [Some r]) rows" post r] by auto
  then show ?thesis using dec by (simp add: upsertAll_append)
qed

lemma columnCountExceeds_never: "columnCountExceeds cds = False"
  by (simp add: columnCountExceeds_def split: option.splits)

section \<open>Facts of the sample stores\<close>

lemma lower_simps:
  "toLowerCase ''id'' = ''id''" "toLowerCase ''v'' = ''v''" "toLowerCase ''V'' = ''v''"
  "toLowerCase ''w'' = ''w''" "toLowerCase ''a'' = ''a''" "toLowerCase ''A'' = ''a''"
  "toLowerCase ''b'' = ''b''" "toLowerCase ''c'' = ''c''"
  "toLowerCase ''tableName'' = ''tablename''" "toLowerCase ''action'' = ''action''"
  "toLowerCase ''itemId'' = ''itemid''" "toLowerCase ''upsert'' = ''upsert''"
  "toLowerCase ''delete'' = ''delete''"
  by (simp_all add: toLowerCase_def toLowerChar_def)

lemmas engine_defs = columnNames_def hasColumn_def cell_def assigned_def pkValues_def pkConflict_def
  insertRow_def updateRow_def lower_simps idPropertyName_def isId_def
  getId_def getProp_def transaction_def tableInfo_def toRecord_def selectById_def

lemmas store_defs = upsert_def priv_upsert_def lookup_def executeBatch_def operationStatements_def
  priv_deleteIds_def getTableDefinition_def columnCountExceeds_def forbiddenIdChars_def
  isControl_def dquote_def backslash_def plainCodec_def todoStore_def todoColumns_def
  todoDefinition_def

lemma todo_facts:
  "getTableDefinition (tableDefinitions (todoStore rows)) ''t'' = Some todoDefinition"
  "db (todoStore rows) ''t'' = Some (todoTable rows)"
  "hasColumn (tcolumns (todoTable rows)) idPropertyName"
  "tcolumns (todoTable rows) = todoColumns" "trows (todoTable rows) = rows"
  by (simp_all add: getTableDefinition_def todoStore_def todoTable_def todoColumns_def engine_defs)

lemma todo_keyed: "idKeyed (todoTable [[VStr ''a'', VInt 1]])"
  by (simp add: idKeyed_def todoTable_def todoColumns_def engine_defs)

lemma valid_ids: "isValidId (VStr ''a'')" "isValidId (VStr ''A'')" "isValidId (VStr ''b'')"
  "isValidId (VStr ''c'')"
  by (simp_all add: forbiddenIdChars_def isControl_def dquote_def backslash_def)

section \<open>upsert\<close>

lemma priv_upsert_Single:
  "priv_upsert C defs t (Single r) = priv_upsert C defs t (Array [Some r])"
  by (simp add: priv_upsert_def split: option.splits)

lemma priv_upsert_Array:
  assumes "t \<noteq> []" "getTableDefinition defs t = Some tdef"
  shows "priv_upsert C defs t (Array rs) =
     (case serializeRecords C (def_columns tdef) rs of
        Inl e \<Rightarrow> Inl e
      | Inr recs \<Rightarrow> Inr (concat (map (upsertStatements t) recs)))"
  using assms by (simp add: priv_upsert_def columnCountExceeds_never split: sum.splits)

lemma serializeRecords_nulls:
  "serializeRecords C cds (filter (\<lambda>x. x \<noteq> None) rs) =
     (case serializeRecords C cds rs of
        Inl e \<Rightarrow> Inl e
      | Inr recs \<Rightarrow> Inr (filter (\<lambda>x. x \<noteq> None) recs))"
  by (induction C cds rs rule: serializeRecords.induct)
    (auto simp del: not_None_eq split: sum.splits)

lemma upsertStatements_nulls:
  "concat (map (upsertStatements t) (filter (\<lambda>x. x \<noteq> None) recs))
     = concat (map (upsertStatements t) recs)"
proof (induction recs)
  case Nil show ?case by simp
next
  case (Cons x recs) then show ?case
    by (cases x) (simp_all del: upsertStatements.simps(2) not_None_eq)
qed

lemma priv_upsert_nulls:
  "priv_upsert C defs t (Array (filter (\<lambda>x. x \<noteq> None) rs)) = priv_upsert C defs t (Array rs)"
  by (auto simp: priv_upsert_def serializeRecords_nulls upsertStatements_nulls
      simp del: not_None_eq split: sum.splits option.splits)

lemma serializeRecords_invalid:
  "Some r \<in> set rs \<Longrightarrow> \<not> isValidId (getId r) \<Longrightarrow> \<exists>e. serializeRecords C cds rs = Inl e"
  by (induction C cds rs rule: serializeRecords.induct) (auto split: sum.splits)

lemma priv_upsert_invalid:
  assumes "Some r \<in> set rs" "\<not> isValidId (getId r)"
  shows "\<exists>e. priv_upsert C defs t (Array rs) = Inl e"
  using serializeRecords_invalid[OF assms, of C]
  by (auto simp: priv_upsert_def split: option.splits sum.splits) (metis Inl_Inr_False)

lemma upsert_failure_unchanged: "upsert C t data st = (Inl e, st') \<Longrightarrow> st' = st"
  by (auto simp: upsert_def split: sum.splits)

lemma idKeyed_parts:
  assumes "idKeyed tb"
  shows "keyCols (tcolumns tb)" "sized (tcolumns tb) (trows tb)" "pkUnique (tcolumns tb) (trows tb)"
  using assms by (simp_all add: idKeyed_alt sized_def)

lemma upsert_Array_effect:
  assumes t: "t \<noteq> []" and def: "getTableDefinition (tableDefinitions st) t = Some tdef"
    and tb: "db st t = Some tb" and key: "idKeyed tb"
    and ser: "serializeRecords C (def_columns tdef) rs = Inr recs"
    and sto: "\<And>r'. Some r' \<in> set recs \<Longrightarrow> storable (tcolumns tb) r'"
  shows "upsert C t (Array rs) st
         = (Inr (), st\<lparr>db := (db st)(t \<mapsto> tb\<lparr>trows := upsertAll (tcolumns tb) recs (trows tb)\<rparr>)\<rparr>)"
    and "idKeyed (tb\<lparr>trows := upsertAll (tcolumns tb) recs (trows tb)\<rparr>)"
proof -
  note k = idKeyed_parts[OF key]
  have ex: "executeAll (concat (map (upsertStatements t) recs)) (db st)
       = Inr ((db st)(t \<mapsto> tb\<lparr>trows := upsertAll (tcolumns tb) recs (trows tb)\<rparr>))
     \<and> sized (tcolumns tb) (upsertAll (tcolumns tb) recs (trows tb))
     \<and> pkUnique (tcolumns tb) (upsertAll (tcolumns tb) recs (trows tb))"
    using exec_upsert_all[where d="db st" and t=t and tb=tb, OF k(1) k(2) k(3) tb refl refl sto] by blast
  with priv_upsert_Array[OF t def, of C rs] ser
  show "upsert C t (Array rs) st
         = (Inr (), st\<lparr>db := (db st)(t \<mapsto> tb\<lparr>trows := upsertAll (tcolumns tb) recs (trows tb)\<rparr>)\<rparr>)"
    by (simp add: upsert_def transaction_def)
  from ex k(1) show "idKeyed (tb\<lparr>trows := upsertAll (tcolumns tb) recs (trows tb)\<rparr>)"
    by (simp add: idKeyed_alt sized_def)
qed

text \<open>
  C5. \<^verbatim>\<open>upsert(tableName, dataOrArray)\<close> takes one record or an array; the entries of an
  array that are null are skipped; every record that is not null must have a valid id;
  a record is inserted, or updated on the primary key: afterwards a row with its id
  holds the values supplied, and no row is there twice; the whole call is one
  transaction.

  Stated for a table of the store that is keyed by its id column. In turn: one record is
  the array of that record; an array without its null entries does what the array does;
  an entry with an id that is not valid makes the call fail and leaves the store as it
  was; when the records serialize and their serialized forms fit the table, the call
  succeeds, it changes the rows of that table only, the ids stay unique, and every
  record that no later entry of the array overwrites (none has its id) is held by the
  rows: a row has its id and, in each column it names, its value, the values being those
  of the serialized record, from which the statements are built; a call that fails
  leaves the store as it was.
\<close>

theorem upsert_insert_or_update:
  assumes t: "t \<noteq> []" and def: "getTableDefinition (tableDefinitions st) t = Some tdef"
    and tb: "db st t = Some tb" and key: "idKeyed tb"
  shows "upsert C t (Single r) st = upsert C t (Array [Some r]) st
    \<and> upsert C t (Array (filter (\<lambda>x. x \<noteq> None) rs)) st = upsert C t (Array rs) st
    \<and> (\<forall>r. Some r \<in> set rs \<and> \<not> isValidId (getId r) \<longrightarrow> (\<exists>e. upsert C t (Array rs) st = (Inl e, st)))
    \<and> (\<forall>recs. serializeRecords C (def_columns tdef) rs = Inr recs
           \<and> (\<forall>r'. Some r' \<in> set recs \<longrightarrow> storable (tcolumns tb) r') \<longrightarrow>
         (\<exists>rows'. upsert C t (Array rs) st = (Inr (), st\<lparr>db := (db st)(t \<mapsto> tb\<lparr>trows := rows'\<rparr>)\<rparr>)
            \<and> distinct (filter (\<lambda>i. i \<noteq> VNull) (map (idOf (tcolumns tb)) rows'))
            \<and> (\<forall>pre r' post. recs = pre @ Some r' # post
                   \<and> (\<forall>r''. Some r'' \<in> set post \<longrightarrow> getId r'' \<noteq> getId r')
                 \<longrightarrow> (\<exists>row \<in> set rows'. idOf (tcolumns tb) row = getId r'
                        \<and> (\<forall>(p, v) \<in> set r'. cell (tcolumns tb) row p = v)))))
    \<and> (\<forall>data e st'. upsert C t data st = (Inl e, st') \<longrightarrow> st' = st)"
proof (intro conjI allI impI)
  show "upsert C t (Single r) st = upsert C t (Array [Some r]) st"
    by (simp add: upsert_def priv_upsert_Single)
  show "upsert C t (Array (filter (\<lambda>x. x \<noteq> None) rs)) st = upsert C t (Array rs) st"
    by (simp add: upsert_def priv_upsert_nulls del: not_None_eq)
next
  fix r assume "Some r \<in> set rs \<and> \<not> isValidId (getId r)"
  then obtain e where "priv_upsert C (tableDefinitions st) t (Array rs) = Inl e"
    using priv_upsert_invalid by blast
  then show "\<exists>e. upsert C t (Array rs) st = (Inl e, st)"
    by (simp add: upsert_def transaction_def)
next
  fix recs
  assume a: "serializeRecords C (def_columns tdef) rs = Inr recs
           \<and> (\<forall>r'. Some r' \<in> set recs \<longrightarrow> storable (tcolumns tb) r')"
  let ?rows = "upsertAll (tcolumns tb) recs (trows tb)"
  from a have ser: "serializeRecords C (def_columns tdef) rs = Inr recs"
    and sto: "\<And>r'. Some r' \<in> set recs \<Longrightarrow> storable (tcolumns tb) r'" by blast+
  note eff = upsert_Array_effect[OF t def tb key ser sto]
  note k = idKeyed_parts[OF key]
  from eff(2) have "distinct (filter (\<lambda>i. i \<noteq> VNull) (map (idOf (tcolumns tb)) ?rows))"
    using pkUnique_ids[of "tcolumns tb" ?rows] by (simp add: idKeyed_alt)
  moreover have "\<forall>pre r' post. recs = pre @ Some r' # post
                   \<and> (\<forall>r''. Some r'' \<in> set post \<longrightarrow> getId r'' \<noteq> getId r')
                 \<longrightarrow> (\<exists>row \<in> set ?rows. idOf (tcolumns tb) row = getId r'
                        \<and> (\<forall>(p, v) \<in> set r'. cell (tcolumns tb) row p = v))"
    using holds_upsertAll[OF k(1) k(2) k(3) sto] unfolding holds_def by blast
  ultimately show "\<exists>rows'. upsert C t (Array rs) st = (Inr (), st\<lparr>db := (db st)(t \<mapsto> tb\<lparr>trows := rows'\<rparr>)\<rparr>)
            \<and> distinct (filter (\<lambda>i. i \<noteq> VNull) (map (idOf (tcolumns tb)) rows'))
            \<and> (\<forall>pre r' post. recs = pre @ Some r' # post
                   \<and> (\<forall>r''. Some r'' \<in> set post \<longrightarrow> getId r'' \<noteq> getId r')
                 \<longrightarrow> (\<exists>row \<in> set rows'. idOf (tcolumns tb) row = getId r'
                        \<and> (\<forall>(p, v) \<in> set r'. cell (tcolumns tb) row p = v)))"
    using eff(1) by blast
next
  fix data e st' assume "upsert C t data st = (Inl e, st')"
  then show "st' = st" by (rule upsert_failure_unchanged)
qed

text \<open>
  The call on a table that holds the row \<^verbatim>\<open>a\<close>: the first record updates that row, the
  null entry is passed over, the third record is inserted.
\<close>

lemma upsert_array_example: "upsert plainCodec ''t'' (Array [Some [(''id'', VStr ''a''), (''v'', VInt 7)], None, Some [(''id'', VStr ''c'')]]) (todoStore [[VStr ''a'', VInt 1]])
       = (Inr (), todoStore [[VStr ''a'', VInt 7], [VStr ''c'', VNull]])"
    by (simp add: store_defs engine_defs)

theorem upsert_insert_or_update_witness:
  "''t'' \<noteq> []
   \<and> getTableDefinition (tableDefinitions (todoStore [[VStr ''a'', VInt 1]])) ''t'' = Some todoDefinition
   \<and> db (todoStore [[VStr ''a'', VInt 1]]) ''t'' = Some (todoTable [[VStr ''a'', VInt 1]])
   \<and> idKeyed (todoTable [[VStr ''a'', VInt 1]])
   \<and> upsert plainCodec ''t'' (Single [(''id'', VStr ''c'')]) (todoStore [[VStr ''a'', VInt 1]])
       = upsert plainCodec ''t'' (Array [Some [(''id'', VStr ''c'')]]) (todoStore [[VStr ''a'', VInt 1]])
   \<and> upsert plainCodec ''t''
        (Array [Some [(''id'', VStr ''a''), (''v'', VInt 7)], None, Some [(''id'', VStr ''c'')]])
        (todoStore [[VStr ''a'', VInt 1]])
       = (Inr (), todoStore [[VStr ''a'', VInt 7], [VStr ''c'', VNull]])
   \<and> (\<exists>rows'. upsert plainCodec ''t''
          (Array [Some [(''id'', VStr ''a''), (''v'', VInt 7)], None, Some [(''id'', VStr ''c'')]])
          (todoStore [[VStr ''a'', VInt 1]])
         = (Inr (), (todoStore [[VStr ''a'', VInt 1]])\<lparr>db := (db (todoStore [[VStr ''a'', VInt 1]]))
               (''t'' \<mapsto> (todoTable [[VStr ''a'', VInt 1]])\<lparr>trows := rows'\<rparr>)\<rparr>)
       \<and> distinct (filter (\<lambda>i. i \<noteq> VNull)
            (map (idOf (tcolumns (todoTable [[VStr ''a'', VInt 1]]))) rows'))
       \<and> (\<forall>pre r' post.
             [Some [(''id'', VStr ''a''), (''v'', VInt 7)], None, Some [(''id'', VStr ''c'')]]
               = pre @ Some r' # post
             \<and> (\<forall>r''. Some r'' \<in> set post \<longrightarrow> getId r'' \<noteq> getId r') \<longrightarrow>
             (\<exists>row \<in> set rows'. idOf (tcolumns (todoTable [[VStr ''a'', VInt 1]])) row = getId r'
                \<and> (\<forall>(p, v) \<in> set r'. cell (tcolumns (todoTable [[VStr ''a'', VInt 1]])) row p = v))))"
proof -
  let ?rs = "[Some [(''id'', VStr ''a''), (''v'', VInt 7)], None, Some [(''id'', VStr ''c'')]]"
  have h1: "''t'' \<noteq> []" by simp
  note T = upsert_insert_or_update[OF h1 todo_facts(1) todo_facts(2) todo_keyed,
      of plainCodec "[(''id'', VStr ''c'')]" ?rs]
  from T have c1: "upsert plainCodec ''t'' (Single [(''id'', VStr ''c'')]) (todoStore [[VStr ''a'', VInt 1]])
       = upsert plainCodec ''t'' (Array [Some [(''id'', VStr ''c'')]]) (todoStore [[VStr ''a'', VInt 1]])"
    by (rule conjunct1)
  have s: "serializeRecords plainCodec (def_columns todoDefinition) ?rs = Inr ?rs
       \<and> (\<forall>r'. Some r' \<in> set ?rs \<longrightarrow> storable (tcolumns (todoTable [[VStr ''a'', VInt 1]])) r')"
    by (auto simp: plainCodec_def forbiddenIdChars_def isControl_def dquote_def backslash_def
        storable_def todoTable_def todoColumns_def engine_defs)
  note c4 = T[THEN conjunct2, THEN conjunct2, THEN conjunct2, THEN conjunct1, THEN spec, THEN mp, OF s]
  show ?thesis
    by (intro conjI h1 todo_facts(1) todo_facts(2) todo_keyed c1 upsert_array_example c4)
qed

section \<open>upsert of a record that is there already\<close>

lemma cell_no_column:
  assumes "length row = length cols" "\<not> hasColumn cols n"
  shows "cell cols row n = VNull"
proof -
  have "fst ` set (zip (columnNames cols) row) = set (columnNames cols)"
    using assms(1) by (metis columnNames_def length_map map_fst_zip set_map)
  with assms(2) have "map_of (zip (columnNames cols) row) (toLowerCase n) = None"
    by (simp add: map_of_eq_None_iff hasColumn_def)
  then show ?thesis by (simp add: cell_def)
qed

lemma assigned_None:
  assumes "length names = length vals" "toLowerCase n \<notin> set (map toLowerCase names)"
  shows "assigned names vals n = None"
proof -
  have "fst ` set (zip (map toLowerCase names) vals) = set (map toLowerCase names)"
    using assms(1) by (metis length_map map_fst_zip set_map)
  with assms(2) show ?thesis by (simp add: assigned_def map_of_eq_None_iff)
qed

lemma cell_updateRow_other:
  assumes s: "storable cols r" and l: "length row = length cols"
    and n: "toLowerCase n \<notin> set (map toLowerCase (map fst r))"
  shows "cell cols (updateRow cols (map fst (filter (\<lambda>(p, v). \<not> isId p) r))
            (map snd (filter (\<lambda>(p, v). \<not> isId p) r)) row) n = cell cols row n"
proof -
  have "assigned (map fst r) (map snd r) n = None" using n by (intro assigned_None) simp_all
  with l show ?thesis
    by (simp add: cell_updateRow updates_names(3)[OF s] cell_no_column)
qed

lemma upsertRows_existing:
  assumes "getId r \<in> idOf cols ` set rows"
  shows "upsertRows cols r rows =
     map (\<lambda>row. if idOf cols row = getId r \<and> filter (\<lambda>(p, v). \<not> isId p) r \<noteq> []
                then updateRow cols (map fst (filter (\<lambda>(p, v). \<not> isId p) r))
                       (map snd (filter (\<lambda>(p, v). \<not> isId p) r)) row
                else row) rows"
  using assms by (simp add: upsertRows_def Let_def map_idI)

lemma upsertRows_only_id:
  assumes "getId r \<in> idOf cols ` set rows" "map fst r = [idPropertyName]"
  shows "upsertRows cols r rows = rows"
proof -
  from assms(2) have "filter (\<lambda>(p, v). \<not> isId p) r = []"
    by (cases r) (auto simp: isId_def)
  with assms(1) show ?thesis by (simp add: upsertRows_def Let_def)
qed

lemma store_db_same: "db st t = Some tb \<Longrightarrow> st\<lparr>db := (db st)(t \<mapsto> tb\<lparr>trows := trows tb\<rparr>)\<rparr> = st"
  by (simp add: map_upd_same)

text \<open>
  C10. The upsert of a record whose id is the id of a row updates a part of that row:
  the columns that are properties of the record take its values, every other column of
  the row keeps the value stored, and every other row stays as it is. The upsert of a
  record whose only property is the id leaves the store unchanged: the one statement it
  issues is the INSERT OR IGNORE, and no UPDATE.

  The statements are built from the serialized record \<open>r'\<close>; its properties are the
  columns written.
\<close>

theorem upsert_partial_update:
  assumes t: "t \<noteq> []" and def: "getTableDefinition (tableDefinitions st) t = Some tdef"
    and tb: "db st t = Some tb" and key: "idKeyed tb"
    and valid: "isValidId (getId r)" and ser: "serialize C r (def_columns tdef) = Inr r'"
    and sto: "storable (tcolumns tb) r'"
    and ex: "getId r' \<in> idOf (tcolumns tb) ` set (trows tb)"
  shows "\<exists>rows'. upsert C t (Single r) st = (Inr (), st\<lparr>db := (db st)(t \<mapsto> tb\<lparr>trows := rows'\<rparr>)\<rparr>)
      \<and> length rows' = length (trows tb)
      \<and> (\<forall>k < length rows'.
            (idOf (tcolumns tb) (trows tb ! k) \<noteq> getId r' \<longrightarrow> rows' ! k = trows tb ! k)
          \<and> (idOf (tcolumns tb) (trows tb ! k) = getId r' \<longrightarrow>
               (\<forall>(p, v) \<in> set r'. cell (tcolumns tb) (rows' ! k) p = v)
             \<and> (\<forall>n. toLowerCase n \<notin> set (map toLowerCase (map fst r')) \<longrightarrow>
                    cell (tcolumns tb) (rows' ! k) n = cell (tcolumns tb) (trows tb ! k) n)))
      \<and> (map fst r' = [idPropertyName] \<longrightarrow>
            priv_upsert C (tableDefinitions st) t (Single r)
              = Inr [InsertOrIgnore t [idPropertyName] [getId r']]
          \<and> upsert C t (Single r) st = (Inr (), st))"
proof -
  let ?cols = "tcolumns tb" and ?rows = "trows tb"
  let ?upd = "filter (\<lambda>(p, v). \<not> isId p) r'"
  let ?rows' = "upsertRows ?cols r' ?rows"
  note k = idKeyed_parts[OF key]
  have sr: "serializeRecords C (def_columns tdef) [Some r] = Inr [Some r']"
    using valid ser by simp
  have eff: "upsert C t (Single r) st = (Inr (), st\<lparr>db := (db st)(t \<mapsto> tb\<lparr>trows := ?rows'\<rparr>)\<rparr>)"
    using upsert_Array_effect(1)[OF t def tb key sr] sto
    by (simp add: upsert_def priv_upsert_Single)
  have shape: "?rows' = map (\<lambda>row. if idOf ?cols row = getId r' \<and> ?upd \<noteq> []
                then updateRow ?cols (map fst ?upd) (map snd ?upd) row else row) ?rows"
    by (rule upsertRows_existing[OF ex])
  have len: "length ?rows' = length ?rows" by (simp add: shape)
  have rows: "\<forall>k < length ?rows'.
            (idOf ?cols (?rows ! k) \<noteq> getId r' \<longrightarrow> ?rows' ! k = ?rows ! k)
          \<and> (idOf ?cols (?rows ! k) = getId r' \<longrightarrow>
               (\<forall>(p, v) \<in> set r'. cell ?cols (?rows' ! k) p = v)
             \<and> (\<forall>n. toLowerCase n \<notin> set (map toLowerCase (map fst r')) \<longrightarrow>
                    cell ?cols (?rows' ! k) n = cell ?cols (?rows ! k) n))"
  proof (intro allI impI conjI)
    fix j assume j: "j < length ?rows'" and ne: "idOf ?cols (?rows ! j) \<noteq> getId r'"
    then show "?rows' ! j = ?rows ! j" using len by (simp add: shape)
  next
    fix j assume j: "j < length ?rows'" and e: "idOf ?cols (?rows ! j) = getId r'"
    from j len have mem: "?rows ! j \<in> set ?rows" by simp
    with k(2) have l: "length (?rows ! j) = length ?cols" by (simp add: sized_def list_all_iff)
    from j len have "?rows' ! j \<in> set ?rows'" by (metis nth_mem)
    moreover have i': "idOf ?cols (?rows' ! j) = getId r'"
      using j len e idOf_updateRow[OF k(1) sto l] by (simp add: shape)
    ultimately show "\<forall>(p, v) \<in> set r'. cell ?cols (?rows' ! j) p = v"
      using upserted_cells[OF k(1) k(2) sto] by blast
  next
    fix j n assume j: "j < length ?rows'" and e: "idOf ?cols (?rows ! j) = getId r'"
      and n: "toLowerCase n \<notin> set (map toLowerCase (map fst r'))"
    from j len have mem: "?rows ! j \<in> set ?rows" by simp
    with k(2) have l: "length (?rows ! j) = length ?cols" by (simp add: sized_def list_all_iff)
    show "cell ?cols (?rows' ! j) n = cell ?cols (?rows ! j) n"
      using j len e cell_updateRow_other[OF sto l n] by (simp add: shape)
  qed
  have only: "map fst r' = [idPropertyName] \<longrightarrow>
            priv_upsert C (tableDefinitions st) t (Single r)
              = Inr [InsertOrIgnore t [idPropertyName] [getId r']]
          \<and> upsert C t (Single r) st = (Inr (), st)"
  proof
    assume o: "map fst r' = [idPropertyName]"
    then obtain v where r': "r' = [(idPropertyName, v)]" by (cases r') auto
    then have v: "getId r' = v" by (simp add: getId_def getProp_def)
    have "priv_upsert C (tableDefinitions st) t (Single r)
              = Inr [InsertOrIgnore t [idPropertyName] [getId r']]"
      using priv_upsert_Array[OF t def, of C "[Some r]"] sr r' v
      by (simp add: priv_upsert_Single isId_def)
    moreover have "upsert C t (Single r) st = (Inr (), st)"
      using eff upsertRows_only_id[OF ex o] store_db_same[OF tb] by simp
    ultimately show "priv_upsert C (tableDefinitions st) t (Single r)
              = Inr [InsertOrIgnore t [idPropertyName] [getId r']]
          \<and> upsert C t (Single r) st = (Inr (), st)" by blast
  qed
  from eff len rows only show ?thesis by blast
qed

theorem upsert_partial_update_witness:
  "''t'' \<noteq> []
   \<and> getTableDefinition (tableDefinitions (todoStore [[VStr ''a'', VInt 1]])) ''t'' = Some todoDefinition
   \<and> db (todoStore [[VStr ''a'', VInt 1]]) ''t'' = Some (todoTable [[VStr ''a'', VInt 1]])
   \<and> idKeyed (todoTable [[VStr ''a'', VInt 1]])
   \<and> isValidId (getId [(''id'', VStr ''a'')])
   \<and> serialize plainCodec [(''id'', VStr ''a'')] (def_columns todoDefinition) = Inr [(''id'', VStr ''a'')]
   \<and> storable (tcolumns (todoTable [[VStr ''a'', VInt 1]])) [(''id'', VStr ''a'')]
   \<and> getId [(''id'', VStr ''a'')]
        \<in> idOf (tcolumns (todoTable [[VStr ''a'', VInt 1]])) ` set (trows (todoTable [[VStr ''a'', VInt 1]]))
   \<and> priv_upsert plainCodec (tableDefinitions (todoStore [[VStr ''a'', VInt 1]])) ''t''
         (Single [(''id'', VStr ''a'')])
        = Inr [InsertOrIgnore ''t'' [idPropertyName] [getId [(''id'', VStr ''a'')]]]
   \<and> upsert plainCodec ''t'' (Single [(''id'', VStr ''a'')]) (todoStore [[VStr ''a'', VInt 1]])
        = (Inr (), todoStore [[VStr ''a'', VInt 1]])"
proof -
  have h1: "''t'' \<noteq> []" by simp
  have h5: "isValidId (getId [(''id'', VStr ''a'')])"
    by (simp add: forbiddenIdChars_def isControl_def dquote_def backslash_def engine_defs)
  have h6: "serialize plainCodec [(''id'', VStr ''a'')] (def_columns todoDefinition)
      = Inr [(''id'', VStr ''a'')]"
    by (simp add: plainCodec_def)
  have h7: "storable (tcolumns (todoTable [[VStr ''a'', VInt 1]])) [(''id'', VStr ''a'')]"
    by (simp add: storable_def todoTable_def todoColumns_def engine_defs)
  have h8: "getId [(''id'', VStr ''a'')]
        \<in> idOf (tcolumns (todoTable [[VStr ''a'', VInt 1]])) ` set (trows (todoTable [[VStr ''a'', VInt 1]]))"
    by (simp add: idOf_def todoTable_def todoColumns_def engine_defs)
  from upsert_partial_update[OF h1 todo_facts(1) todo_facts(2) todo_keyed h5 h6 h7 h8]
  obtain rows' where
    "map fst [(''id'', VStr ''a'')] = [idPropertyName] \<longrightarrow>
       priv_upsert plainCodec (tableDefinitions (todoStore [[VStr ''a'', VInt 1]])) ''t''
         (Single [(''id'', VStr ''a'')])
        = Inr [InsertOrIgnore ''t'' [idPropertyName] [getId [(''id'', VStr ''a'')]]]
     \<and> upsert plainCodec ''t'' (Single [(''id'', VStr ''a'')]) (todoStore [[VStr ''a'', VInt 1]])
        = (Inr (), todoStore [[VStr ''a'', VInt 1]])"
    by (elim exE conjE)
  moreover have "map fst [(''id'', VStr ''a'')] = [idPropertyName]"
    by (simp add: idPropertyName_def)
  ultimately have c: "priv_upsert plainCodec (tableDefinitions (todoStore [[VStr ''a'', VInt 1]])) ''t''
         (Single [(''id'', VStr ''a'')])
        = Inr [InsertOrIgnore ''t'' [idPropertyName] [getId [(''id'', VStr ''a'')]]]
     \<and> upsert plainCodec ''t'' (Single [(''id'', VStr ''a'')]) (todoStore [[VStr ''a'', VInt 1]])
        = (Inr (), todoStore [[VStr ''a'', VInt 1]])"
    by blast
  show ?thesis
    by (intro conjI h1 todo_facts(1) todo_facts(2) todo_keyed h5 h6 h7 h8 c[THEN conjunct1]
        c[THEN conjunct2])
qed

lemma partial_update_example:
  "upsert plainCodec ''t'' (Single [(''id'', VStr ''a''), (''v'', VInt 9)])
     (todoStore [[VStr ''a'', VInt 1], [VStr ''b'', VInt 2]])
   = (Inr (), todoStore [[VStr ''a'', VInt 9], [VStr ''b'', VInt 2]])"
  by (simp add: store_defs engine_defs)

section \<open>defineTable\<close>

lemma exec_addColumns:
  "executeAll (map (AddColumn t) cs) d = Inr d' \<Longrightarrow> d t = Some tb \<Longrightarrow>
   d' = d(t \<mapsto> \<lparr>tcolumns = tcolumns tb @ cs,
                 trows = map (\<lambda>r. r @ replicate (length cs) VNull) (trows tb)\<rparr>)"
proof (induction cs arbitrary: d tb)
  case Nil
  then show ?case by (simp add: map_upd_same)
next
  case (Cons c cs)
  from Cons.prems obtain d1 where s1: "executeSql (AddColumn t c) d = Inr d1"
    and rest: "executeAll (map (AddColumn t) cs) d1 = Inr d'"
    by (auto split: sum.splits)
  let ?tb1 = "\<lparr>tcolumns = tcolumns tb @ [c], trows = map (\<lambda>r. r @ [VNull]) (trows tb)\<rparr>"
  from s1 Cons.prems(2) have d1: "d1 = d(t \<mapsto> ?tb1)" by (auto split: if_splits)
  then have "d1 t = Some ?tb1" by simp
  from Cons.IH[OF rest this] have "d' = d1(t \<mapsto> \<lparr>tcolumns = tcolumns ?tb1 @ cs,
         trows = map (\<lambda>r. r @ replicate (length cs) VNull) (trows ?tb1)\<rparr>)" .
  then show ?case unfolding d1 by (simp add: comp_def)
qed

lemma exec_addColumns_ok:
  "d t = Some tb \<Longrightarrow> distinct (columnNames cs) \<Longrightarrow>
   set (columnNames cs) \<inter> set (columnNames (tcolumns tb)) = {} \<Longrightarrow> list_all (\<lambda>c. \<not> cpk c) cs \<Longrightarrow>
   \<exists>d'. executeAll (map (AddColumn t) cs) d = Inr d'"
proof (induction cs arbitrary: d tb)
  case Nil then show ?case by simp
next
  case (Cons c cs)
  let ?tb1 = "\<lparr>tcolumns = tcolumns tb @ [c], trows = map (\<lambda>r. r @ [VNull]) (trows tb)\<rparr>"
  from Cons.prems have s1: "executeSql (AddColumn t c) d = Inr (d(t \<mapsto> ?tb1))"
    by (auto simp: hasColumn_def columnNames_def)
  have "\<exists>d'. executeAll (map (AddColumn t) cs) (d(t \<mapsto> ?tb1)) = Inr d'"
    using Cons.prems by (intro Cons.IH[of _ ?tb1]) (auto simp: columnNames_def)
  with s1 show ?case by simp
qed

lemma addMissingColumns_map:
  "addMissingColumns d (existingColumns cols) = map (AddColumn (def_name d)) (addedColumns d cols)"
  by (simp add: addMissingColumns_def addedColumns_def case_prod_unfold comp_def)

lemma columnNames_created:
  "columnNames (createdColumns d) = map toLowerCase (map fst (def_columns d))"
  by (simp add: columnNames_def createdColumns_def case_prod_unfold comp_def)

lemma at_most_one:
  "distinct (map g xs) \<Longrightarrow> (\<And>x. x \<in> set xs \<Longrightarrow> P x \<Longrightarrow> g x = k) \<Longrightarrow> length (filter P xs) \<le> 1"
proof (induction xs)
  case Nil show ?case by simp
next
  case (Cons x xs)
  show ?case
  proof (cases "P x")
    case True
    with Cons.prems have "g x = k" by simp
    have "\<not> P y" if "y \<in> set xs" for y
    proof
      assume "P y"
      with Cons.prems(2)[of y] that have "g y = k" by simp
      moreover from Cons.prems(1) that have "g x \<noteq> g y" by auto
      ultimately show False using \<open>g x = k\<close> by simp
    qed
    then have "filter P xs = []" by (simp add: filter_empty_conv)
    with True show ?thesis by simp
  next
    case False
    with Cons show ?thesis by simp
  qed
qed

lemma validate_id_column:
  assumes "validateTableDefinition d = Inr ()"
  shows "def_name d \<noteq> []" "\<exists>ty. (idPropertyName, ty) \<in> set (def_columns d)"
  using assms
  by (auto simp: validateTableDefinition_def split: if_splits option.splits ColumnType.splits
      dest: map_of_SomeD)

lemma one_primary_key:
  assumes "distinct (map toLowerCase (map fst (def_columns d)))"
  shows "length (filter cpk (createdColumns d)) \<le> 1"
proof (rule at_most_one[where g="\<lambda>c. toLowerCase (cname c)" and k=idPropertyName])
  show "distinct (map (\<lambda>c. toLowerCase (cname c)) (createdColumns d))"
    using assms columnNames_created[of d] by (simp add: columnNames_def)
next
  fix x assume "x \<in> set (createdColumns d)" "cpk x"
  then show "toLowerCase (cname x) = idPropertyName"
    by (auto simp: createdColumns_def isId_def)
qed

lemma defineTable_create:
  assumes v: "validateTableDefinition d = Inr ()" and absent: "db st (def_name d) = None"
    and dist: "distinct (map toLowerCase (map fst (def_columns d)))"
  shows "defineTable d st =
     (Inr (), st\<lparr>db := (db st)(def_name d \<mapsto> \<lparr>tcolumns = createdColumns d, trows = []\<rparr>),
                 tableDefinitions := addTableDefinition (tableDefinitions st) d\<rparr>)"
proof -
  from validate_id_column(2)[OF v] have ne: "createdColumns d \<noteq> []"
    by (auto simp: createdColumns_def)
  from one_primary_key[OF dist] have "\<not> 1 < length (filter cpk (createdColumns d))" by simp
  with v absent dist ne show ?thesis
    by (simp add: defineTable_def transaction_def tableInfo_def createTable_def
        createdColumns_def[symmetric] columnNames_created)
qed

lemma created_idKeyed:
  assumes v: "validateTableDefinition d = Inr ()"
    and dist: "distinct (map toLowerCase (map fst (def_columns d)))"
  shows "idKeyed \<lparr>tcolumns = createdColumns d, trows = []\<rparr>"
proof -
  from validate_id_column(2)[OF v] obtain ty where ty: "(idPropertyName, ty) \<in> set (def_columns d)"
    by blast
  then have "toLowerCase idPropertyName \<in> set (map toLowerCase (map fst (def_columns d)))"
    by force
  then have 1: "idPropertyName \<in> set (columnNames (createdColumns d))"
    by (simp add: columnNames_created)
  have 2: "list_all (\<lambda>c. cpk c = (toLowerCase (cname c) = idPropertyName)) (createdColumns d)"
    unfolding list_all_iff
  proof
    fix c assume c: "c \<in> set (createdColumns d)"
    then obtain n cty where n: "(n, cty) \<in> set (def_columns d)"
      "c = \<lparr>cname = n, ctype = SqliteTypeOf cty, cpk = isId n\<rparr>"
      by (auto simp: createdColumns_def)
    have "toLowerCase n = idPropertyName \<Longrightarrow> n = idPropertyName"
    proof -
      assume l: "toLowerCase n = idPropertyName"
      from dist have "inj_on (\<lambda>x. toLowerCase (fst x)) (set (def_columns d))"
        by (simp add: distinct_map comp_def)
      moreover have "(\<lambda>x. toLowerCase (fst x)) (n, cty) = (\<lambda>x. toLowerCase (fst x)) (idPropertyName, ty)"
        using l by simp
      ultimately have "(n, cty) = (idPropertyName, ty)" using n(1) ty by (rule inj_onD)
      then show ?thesis by simp
    qed
    with n(2) show "cpk c = (toLowerCase (cname c) = idPropertyName)"
      by (auto simp: isId_def)
  qed
  from dist 1 2 show ?thesis by (simp add: idKeyed_def columnNames_created)
qed

lemma defineTable_existing:
  assumes v: "validateTableDefinition d = Inr ()" and tb: "db st (def_name d) = Some tb"
    and ne: "tcolumns tb \<noteq> []"
  shows "(\<exists>e. defineTable d st = (Inl e, st)) \<or>
     defineTable d st =
       (Inr (), st\<lparr>db := (db st)(def_name d \<mapsto>
                   \<lparr>tcolumns = tcolumns tb @ addedColumns d (tcolumns tb),
                    trows = map (\<lambda>r. r @ replicate (length (addedColumns d (tcolumns tb))) VNull)
                              (trows tb)\<rparr>),
                   tableDefinitions := addTableDefinition (tableDefinitions st) d\<rparr>)"
proof (cases "executeAll (map (AddColumn (def_name d)) (addedColumns d (tcolumns tb))) (db st)")
  case (Inl e)
  with v tb ne have "defineTable d st = (Inl e, st)"
    by (simp add: defineTable_def transaction_def tableInfo_def addMissingColumns_map)
  then show ?thesis by blast
next
  case (Inr d')
  from exec_addColumns[where d="db st" and t="def_name d" and tb=tb, OF Inr tb] Inr v tb ne show ?thesis
    by (simp add: defineTable_def transaction_def tableInfo_def addMissingColumns_map)
qed

lemma added_missing:
  assumes "c \<in> set (addedColumns d cols)"
  shows "\<not> hasColumn cols (cname c)" "\<exists>ty. (cname c, ty) \<in> set (def_columns d)" "\<not> cpk c"
  using assms
  by (auto simp: addedColumns_def isExisting_def existingColumns_def hasColumn_def columnNames_def)

lemma defineTable_existing_ok:
  assumes v: "validateTableDefinition d = Inr ()" and tb: "db st (def_name d) = Some tb"
    and ne: "tcolumns tb \<noteq> []"
    and dist: "distinct (map toLowerCase (map fst (def_columns d)))"
  shows "\<exists>st'. defineTable d st = (Inr (), st')"
proof -
  let ?f = "filter (\<lambda>(columnName, columnType). \<not> isExisting (existingColumns (tcolumns tb)) columnName)
          (def_columns d)"
  have "columnNames (addedColumns d (tcolumns tb)) = map (\<lambda>x. toLowerCase (fst x)) ?f"
    by (simp add: columnNames_def addedColumns_def case_prod_unfold comp_def)
  moreover have "distinct (map (\<lambda>x. toLowerCase (fst x)) ?f)"
    using dist by (intro distinct_map_filter) (simp add: comp_def)
  ultimately have 1: "distinct (columnNames (addedColumns d (tcolumns tb)))" by simp
  have 2: "set (columnNames (addedColumns d (tcolumns tb))) \<inter> set (columnNames (tcolumns tb)) = {}"
    using added_missing(1)[of _ d "tcolumns tb"]
    by (auto simp: hasColumn_def columnNames_def)
  have 3: "list_all (\<lambda>c. \<not> cpk c) (addedColumns d (tcolumns tb))"
    using added_missing(3)[of _ d "tcolumns tb"] by (simp add: list_all_iff)
  from exec_addColumns_ok[where d="db st" and t="def_name d" and tb=tb, OF tb 1 2 3] obtain d' where
    "executeAll (map (AddColumn (def_name d)) (addedColumns d (tcolumns tb))) (db st) = Inr d'"
    by blast
  with v tb ne show ?thesis
    by (simp add: defineTable_def transaction_def tableInfo_def addMissingColumns_map)
qed

text \<open>
  C8. \<^verbatim>\<open>defineTable\<close> adds and never takes away. For a definition that passes the
  validation: when the store has no table of that name (and the names of the columns
  differ), the table is created with the columns of the definition, the id column its
  primary key and no other column in the key, and with no rows. When the table exists,
  the call either fails and leaves the store as it was, or it leaves the columns of the
  table as they were, names, types and key, and puts behind them the columns it adds;
  every row keeps its values and is NULL in the columns added. Each column added is a
  column of the definition that the table did not have. When the names of the columns of
  the definition differ, the call succeeds.
\<close>

theorem defineTable_additive:
  assumes v: "validateTableDefinition d = Inr ()"
  shows "(db st (def_name d) = None \<and> distinct (map toLowerCase (map fst (def_columns d))) \<longrightarrow>
            defineTable d st =
              (Inr (), st\<lparr>db := (db st)(def_name d \<mapsto> \<lparr>tcolumns = createdColumns d, trows = []\<rparr>),
                          tableDefinitions := addTableDefinition (tableDefinitions st) d\<rparr>)
          \<and> idKeyed \<lparr>tcolumns = createdColumns d, trows = []\<rparr>)
       \<and> (\<forall>tb. db st (def_name d) = Some tb \<and> tcolumns tb \<noteq> [] \<longrightarrow>
            ((\<exists>e. defineTable d st = (Inl e, st)) \<or>
             defineTable d st =
               (Inr (), st\<lparr>db := (db st)(def_name d \<mapsto>
                   \<lparr>tcolumns = tcolumns tb @ addedColumns d (tcolumns tb),
                    trows = map (\<lambda>r. r @ replicate (length (addedColumns d (tcolumns tb))) VNull)
                              (trows tb)\<rparr>),
                   tableDefinitions := addTableDefinition (tableDefinitions st) d\<rparr>))
          \<and> (\<forall>c \<in> set (addedColumns d (tcolumns tb)).
                \<not> hasColumn (tcolumns tb) (cname c) \<and> (\<exists>ty. (cname c, ty) \<in> set (def_columns d)))
          \<and> (distinct (map toLowerCase (map fst (def_columns d))) \<longrightarrow>
                (\<exists>st'. defineTable d st = (Inr (), st'))))"
proof (intro conjI allI impI ballI)
  assume a: "db st (def_name d) = None \<and> distinct (map toLowerCase (map fst (def_columns d)))"
  then show "defineTable d st =
              (Inr (), st\<lparr>db := (db st)(def_name d \<mapsto> \<lparr>tcolumns = createdColumns d, trows = []\<rparr>),
                          tableDefinitions := addTableDefinition (tableDefinitions st) d\<rparr>)"
    using defineTable_create[OF v] by blast
  from a show "idKeyed \<lparr>tcolumns = createdColumns d, trows = []\<rparr>"
    using created_idKeyed[OF v] by blast
next
  fix tb assume "db st (def_name d) = Some tb \<and> tcolumns tb \<noteq> []"
  then show "(\<exists>e. defineTable d st = (Inl e, st)) \<or>
             defineTable d st =
               (Inr (), st\<lparr>db := (db st)(def_name d \<mapsto>
                   \<lparr>tcolumns = tcolumns tb @ addedColumns d (tcolumns tb),
                    trows = map (\<lambda>r. r @ replicate (length (addedColumns d (tcolumns tb))) VNull)
                              (trows tb)\<rparr>),
                   tableDefinitions := addTableDefinition (tableDefinitions st) d\<rparr>)"
    using defineTable_existing[OF v] by blast
next
  fix tb c assume "c \<in> set (addedColumns d (tcolumns tb))"
  then show "\<not> hasColumn (tcolumns tb) (cname c)" "\<exists>ty. (cname c, ty) \<in> set (def_columns d)"
    using added_missing by blast+
next
  fix tb assume "db st (def_name d) = Some tb \<and> tcolumns tb \<noteq> []"
    and "distinct (map toLowerCase (map fst (def_columns d)))"
  then show "\<exists>st'. defineTable d st = (Inr (), st')"
    using defineTable_existing_ok[OF v] by blast
qed

theorem defineTable_additive_witness:
  "validateTableDefinition todoDefinition = Inr ()
   \<and> validateTableDefinition extDefinition = Inr ()
   \<and> db emptyStore (def_name todoDefinition) = None
   \<and> distinct (map toLowerCase (map fst (def_columns todoDefinition)))
   \<and> defineTable todoDefinition emptyStore = (Inr (), todoStore [])
   \<and> idKeyed \<lparr>tcolumns = createdColumns todoDefinition, trows = []\<rparr>
   \<and> db (todoStore [[VStr ''a'', VInt 1]]) (def_name extDefinition) = Some (todoTable [[VStr ''a'', VInt 1]])
   \<and> distinct (map toLowerCase (map fst (def_columns extDefinition)))
   \<and> defineTable extDefinition (todoStore [[VStr ''a'', VInt 1]])
       = (Inr (), \<lparr>db = [''t'' \<mapsto> \<lparr>tcolumns = todoColumns @
                              [\<lparr>cname = ''w'', ctype = TypeToken CTString, cpk = False\<rparr>],
                            trows = [[VStr ''a'', VInt 1, VNull]]\<rparr>],
                  tableDefinitions = [''t'' \<mapsto> extDefinition]\<rparr>)"
proof -
  have v1: "validateTableDefinition todoDefinition = Inr ()"
    by (simp add: validateTableDefinition_def todoDefinition_def idPropertyName_def)
  have v2: "validateTableDefinition extDefinition = Inr ()"
    by (simp add: validateTableDefinition_def extDefinition_def idPropertyName_def)
  have a1: "db emptyStore (def_name todoDefinition) = None" by (simp add: emptyStore_def)
  have d1: "distinct (map toLowerCase (map fst (def_columns todoDefinition)))"
    by (simp add: todoDefinition_def lower_simps)
  have d2: "distinct (map toLowerCase (map fst (def_columns extDefinition)))"
    by (simp add: extDefinition_def lower_simps)
  have e2: "db (todoStore [[VStr ''a'', VInt 1]]) (def_name extDefinition) = Some (todoTable [[VStr ''a'', VInt 1]])"
    by (simp add: extDefinition_def todo_facts)
  have ne: "tcolumns (todoTable [[VStr ''a'', VInt 1]]) \<noteq> []"
    by (simp add: todoTable_def todoColumns_def)
  note T1 = defineTable_additive[OF v1, of emptyStore, THEN conjunct1, THEN mp, OF conjI[OF a1 d1]]
  note T2 = defineTable_additive[OF v2, of "todoStore [[VStr ''a'', VInt 1]]", THEN conjunct2, THEN spec,
      THEN mp, OF conjI[OF e2 ne]]
  from T1[THEN conjunct1] have c1: "defineTable todoDefinition emptyStore = (Inr (), todoStore [])"
    by (simp add: createdColumns_def todoDefinition_def emptyStore_def todoStore_def todoColumns_def
        addTableDefinition_def isId_def idPropertyName_def)
  from T2[THEN conjunct2, THEN conjunct2, THEN mp, OF d2] T2[THEN conjunct1]
  have "defineTable extDefinition (todoStore [[VStr ''a'', VInt 1]]) =
      (Inr (), (todoStore [[VStr ''a'', VInt 1]])\<lparr>db := (db (todoStore [[VStr ''a'', VInt 1]]))(def_name extDefinition \<mapsto>
                   \<lparr>tcolumns = tcolumns (todoTable [[VStr ''a'', VInt 1]])
                       @ addedColumns extDefinition (tcolumns (todoTable [[VStr ''a'', VInt 1]])),
                    trows = map (\<lambda>r. r @ replicate (length (addedColumns extDefinition
                                     (tcolumns (todoTable [[VStr ''a'', VInt 1]])))) VNull)
                              (trows (todoTable [[VStr ''a'', VInt 1]]))\<rparr>),
                   tableDefinitions := addTableDefinition (tableDefinitions (todoStore [[VStr ''a'', VInt 1]])) extDefinition\<rparr>)"
    by auto
  then have c2: "defineTable extDefinition (todoStore [[VStr ''a'', VInt 1]])
       = (Inr (), \<lparr>db = [''t'' \<mapsto> \<lparr>tcolumns = todoColumns @
                              [\<lparr>cname = ''w'', ctype = TypeToken CTString, cpk = False\<rparr>],
                            trows = [[VStr ''a'', VInt 1, VNull]]\<rparr>],
                  tableDefinitions = [''t'' \<mapsto> extDefinition]\<rparr>)"
    by (simp add: addedColumns_def extDefinition_def todoStore_def todoTable_def todoColumns_def
        addTableDefinition_def isExisting_def existingColumns_def inheritedProperties_def lower_simps)
  show ?thesis
    by (intro conjI v1 v2 a1 d1 c1 T1[THEN conjunct2] e2 d2 c2)
qed

text \<open>
  What the validation lets through, \<^verbatim>\<open>defineTable\<close> creates with all its columns: the
  body of \<^verbatim>\<open>defineTable\<close> does not count them.
\<close>

lemma defineTable_creates_all_columns:
  assumes "validateTableDefinition d = Inr ()" and "db st (def_name d) = None"
    and "distinct (map toLowerCase (map fst (def_columns d)))"
  shows "fst (defineTable d st) = Inr ()
       \<and> length (tableInfo (db (snd (defineTable d st))) (def_name d)) = length (def_columns d)"
  using defineTable_create[OF assms]
  by (simp add: tableInfo_def createdColumns_def)

lemma validate_column_limit:
  "999 < length (def_columns d) \<Longrightarrow> \<exists>e. validateTableDefinition d = Inl e"
  by (simp add: validateTableDefinition_def)

lemma wide_length: "length (def_columns wideDefinition) = 1000"
  by (simp add: wideDefinition_def)

text \<open>
  C7. A table definition of more than 999 columns is rejected when the table is defined:
  \<^verbatim>\<open>defineTable\<close> fails, and the store is as it was, with no table made or altered and
  the registry of definitions unchanged. The rejection is that of the validation, which
  \<^verbatim>\<open>defineTable\<close> calls before it opens its transaction.
\<close>

theorem defineTable_column_limit:
  "999 < length (def_columns d) \<Longrightarrow> \<exists>e. defineTable d st = (Inl e, st)"
proof -
  assume "999 < length (def_columns d)"
  then obtain e where "validateTableDefinition d = Inl e"
    using validate_column_limit by blast
  then have "defineTable d st = (Inl e, st)" by (simp add: defineTable_def)
  then show ?thesis ..
qed

text \<open>The definition of a thousand columns, on the store that has no table.\<close>

theorem defineTable_column_limit_witness:
  "999 < length (def_columns wideDefinition)
   \<and> (\<exists>e. defineTable wideDefinition emptyStore = (Inl e, emptyStore))"
proof -
  have l: "999 < length (def_columns wideDefinition)" by (simp add: wide_length)
  from defineTable_column_limit[OF l, of emptyStore] l show ?thesis by blast
qed

section \<open>lookup\<close>

lemma selectById_matching:
  assumes "db st t = Some tb" "hasColumn (tcolumns tb) idPropertyName"
  shows "selectById (db st) t i = Inr (map (toRecord (tcolumns tb)) (matching tb i))"
  using assms by (simp add: selectById_def matching_def idOf_def)

text \<open>
  C6. \<^verbatim>\<open>lookup(tableName, id, suppressNotFound)\<close> on a defined table, with a valid id: when
  a row matches, the result is the deserialized record of the first such row, a row of
  the table whose id is the id asked for but for the case of letters; when no row
  matches, the result is the absent value if \<^verbatim>\<open>suppressNotFound\<close> is set, and the
  \<^verbatim>\<open>not found\<close> error otherwise.
\<close>

theorem lookup_result:
  assumes t: "t \<noteq> []" and i: "isValidId i"
    and def: "getTableDefinition (tableDefinitions st) t = Some tdef"
    and tb: "db st t = Some tb" and idc: "hasColumn (tcolumns tb) idPropertyName"
  shows "(matching tb i \<noteq> [] \<longrightarrow>
            nocaseEq (idOf (tcolumns tb) (hd (matching tb i))) i
          \<and> hd (matching tb i) \<in> set (trows tb)
          \<and> lookup C t i s st =
              (case deserialize C (toRecord (tcolumns tb) (hd (matching tb i))) (def_columns tdef) of
                 Inl e \<Rightarrow> Inl e | Inr record \<Rightarrow> Inr (Some record)))
       \<and> (matching tb i = [] \<and> s \<longrightarrow> lookup C t i s st = Inr None)
       \<and> (matching tb i = [] \<and> \<not> s \<longrightarrow> lookup C t i s st = Inl (ItemNotFound i))"
proof (intro conjI impI)
  assume ne: "matching tb i \<noteq> []"
  then obtain row rest where m: "matching tb i = row # rest" by (cases "matching tb i") auto
  then have "row \<in> set (matching tb i)" by simp
  then show "nocaseEq (idOf (tcolumns tb) (hd (matching tb i))) i"
    and "hd (matching tb i) \<in> set (trows tb)"
    using m by (auto simp: matching_def)
  show "lookup C t i s st =
              (case deserialize C (toRecord (tcolumns tb) (hd (matching tb i))) (def_columns tdef) of
                 Inl e \<Rightarrow> Inl e | Inr record \<Rightarrow> Inr (Some record))"
    using t i def m by (simp add: lookup_def selectById_matching[OF tb idc])
next
  assume "matching tb i = [] \<and> s"
  then show "lookup C t i s st = Inr None"
    using t i def by (simp add: lookup_def selectById_matching[OF tb idc])
next
  assume "matching tb i = [] \<and> \<not> s"
  then show "lookup C t i s st = Inl (ItemNotFound i)"
    using t i def by (simp add: lookup_def selectById_matching[OF tb idc])
qed

theorem lookup_result_witness:
  "''t'' \<noteq> [] \<and> isValidId (VStr ''A'') \<and> isValidId (VStr ''b'')
   \<and> getTableDefinition (tableDefinitions (todoStore [[VStr ''a'', VInt 1]])) ''t'' = Some todoDefinition
   \<and> db (todoStore [[VStr ''a'', VInt 1]]) ''t'' = Some (todoTable [[VStr ''a'', VInt 1]])
   \<and> hasColumn (tcolumns (todoTable [[VStr ''a'', VInt 1]])) idPropertyName
   \<and> matching (todoTable [[VStr ''a'', VInt 1]]) (VStr ''A'') = [[VStr ''a'', VInt 1]]
   \<and> matching (todoTable [[VStr ''a'', VInt 1]]) (VStr ''b'') = []
   \<and> lookup plainCodec ''t'' (VStr ''A'') False (todoStore [[VStr ''a'', VInt 1]])
        = Inr (Some [(''id'', VStr ''a''), (''v'', VInt 1)])
   \<and> lookup plainCodec ''t'' (VStr ''b'') True (todoStore [[VStr ''a'', VInt 1]]) = Inr None
   \<and> lookup plainCodec ''t'' (VStr ''b'') False (todoStore [[VStr ''a'', VInt 1]])
        = Inl (ItemNotFound (VStr ''b''))"
proof -
  let ?st = "todoStore [[VStr ''a'', VInt 1]]" and ?tb = "todoTable [[VStr ''a'', VInt 1]]"
  have h1: "''t'' \<noteq> []" by simp
  have mA: "matching ?tb (VStr ''A'') = [[VStr ''a'', VInt 1]]"
    by (simp add: matching_def idOf_def todoTable_def todoColumns_def engine_defs)
  have mb: "matching ?tb (VStr ''b'') = []"
    by (simp add: matching_def idOf_def todoTable_def todoColumns_def engine_defs)
  note A = lookup_result[OF h1 valid_ids(2) todo_facts(1) todo_facts(2) todo_facts(3),
      where C=plainCodec and s=False]
  note B1 = lookup_result[OF h1 valid_ids(3) todo_facts(1) todo_facts(2) todo_facts(3),
      where C=plainCodec and s=True]
  note B2 = lookup_result[OF h1 valid_ids(3) todo_facts(1) todo_facts(2) todo_facts(3),
      where C=plainCodec and s=False]
  have neA: "matching ?tb (VStr ''A'') \<noteq> []" by (simp add: mA)
  from A[THEN conjunct1, THEN mp, OF neA]
  have a: "lookup plainCodec ''t'' (VStr ''A'') False ?st = Inr (Some [(''id'', VStr ''a''), (''v'', VInt 1)])"
    by (simp add: mA plainCodec_def todoTable_def todoColumns_def toRecord_def)
  from B1[THEN conjunct2, THEN conjunct1] mb
  have b1: "lookup plainCodec ''t'' (VStr ''b'') True ?st = Inr None" by simp
  from B2[THEN conjunct2, THEN conjunct2] mb
  have b2: "lookup plainCodec ''t'' (VStr ''b'') False ?st = Inl (ItemNotFound (VStr ''b''))" by simp
  show ?thesis
    by (intro conjI h1 valid_ids(2) valid_ids(3) todo_facts(1) todo_facts(2) todo_facts(3) mA mb a b1 b2)
qed

lemma lookup_never_absent: "lookup C t i False st \<noteq> Inr None"
  by (auto simp: lookup_def split: option.splits sum.splits list.splits)

lemma lookup_absent:
  assumes "\<And>tb. db st t = Some tb \<Longrightarrow> matching tb i = []"
  shows "\<exists>e. lookup C t i False st = Inl e"
proof (cases "db st t")
  case None
  then show ?thesis
    by (auto simp: lookup_def selectById_def split: option.splits)
next
  case (Some tb)
  with assms have "matching tb i = []" by simp
  with Some show ?thesis
    by (auto simp: lookup_def selectById_def matching_def idOf_def split: option.splits)
qed

section \<open>del with a query\<close>

text \<open>
  Called from outside, \<^verbatim>\<open>read\<close> gives what \<^verbatim>\<open>_read\<close> gives. Called by a running task of
  the store, it is never settled; so \<^verbatim>\<open>del\<close> with a query, whatever the query and the
  store, is never settled and leaves the store as it is.
\<close>

lemma read_outside: "read False C q st = (Settled (priv_read C q st), st)"
  by (simp add: read_def run_def)

lemma read_inside: "read True C q st = (Unsettled, st)"
  by (simp add: read_def run_def)

lemma del_query_unsettled: "del C (ByQuery q) st = (Unsettled, st)"
  by (simp add: del_def run_def priv_deleteUsingQuery_def read_inside Let_def)

text \<open>
  C9. \<^verbatim>\<open>del\<close> with a query should resolve the query to the ids of its records, whatever
  the selection of the caller, and delete these ids in one transaction. On the store with
  the rows \<^verbatim>\<open>a\<close> and \<^verbatim>\<open>b\<close> of the table \<^verbatim>\<open>t\<close>, the query for the rows with \<^verbatim>\<open>v = 1\<close> reads the
  record \<^verbatim>\<open>a\<close>; \<^verbatim>\<open>del\<close> with this query is never settled, and the row \<^verbatim>\<open>a\<close> stays.
\<close>

theorem del_query_never_settles:
  "read False plainCodec (sampleQuery\<lparr>q_selections := []\<rparr>)
      (todoStore [[VStr ''a'', VInt 1], [VStr ''b'', VInt 2]])
     = (Settled (Inr (WithCount [[(''id'', VStr ''a''), (''v'', VInt 1)]] 1)),
        todoStore [[VStr ''a'', VInt 1], [VStr ''b'', VInt 2]])
   \<and> del plainCodec (ByQuery sampleQuery) (todoStore [[VStr ''a'', VInt 1], [VStr ''b'', VInt 2]])
     = (Unsettled, todoStore [[VStr ''a'', VInt 1], [VStr ''b'', VInt 2]])"
proof
  show "read False plainCodec (sampleQuery\<lparr>q_selections := []\<rparr>)
      (todoStore [[VStr ''a'', VInt 1], [VStr ''b'', VInt 2]])
     = (Settled (Inr (WithCount [[(''id'', VStr ''a''), (''v'', VInt 1)]] 1)),
        todoStore [[VStr ''a'', VInt 1], [VStr ''b'', VInt 2]])"
    by (simp add: read_def run_def priv_read_def selectQuery_def countQuery_def project_def
        sampleQuery_def getTableDefinition_def plainCodec_def todoStore_def todoColumns_def
        todoDefinition_def engine_defs)
  show "del plainCodec (ByQuery sampleQuery) (todoStore [[VStr ''a'', VInt 1], [VStr ''b'', VInt 2]])
     = (Unsettled, todoStore [[VStr ''a'', VInt 1], [VStr ''b'', VInt 2]])"
    by (simp add: del_def run_def priv_deleteUsingQuery_def read_def Let_def)
qed

section \<open>executeBatch and the sync context\<close>

lemma batchStatements_nulls:
  "batchStatements C defs (filter (\<lambda>x. x \<noteq> None) ops) = batchStatements C defs ops"
  by (induction C defs ops rule: batchStatements.induct)
    (auto simp del: not_None_eq split: sum.splits)

lemma executeBatch_unfold:
  "executeBatch C ops st =
     (case batchStatements C (tableDefinitions st) ops of
        Inl e \<Rightarrow> (Inl e, st)
      | Inr stmts \<Rightarrow>
          (case executeAll stmts (db st) of
             Inl e \<Rightarrow> (Inl e, st)
           | Inr db' \<Rightarrow> (Inr (), st\<lparr>db := db'\<rparr>)))"
  by (simp add: executeBatch_def transaction_def split: sum.splits)

lemma executeBatch_failure: "executeBatch C ops st = (Inl e, st') \<Longrightarrow> st' = st"
  by (auto simp: executeBatch_def split: sum.splits)

lemma executeBatch_cases:
  "(\<exists>e. executeBatch C ops st = (Inl e, st)) \<or> (\<exists>st'. executeBatch C ops st = (Inr (), st'))"
  by (simp add: executeBatch_def split: sum.splits)

lemma batch_then:
  "(\<exists>e. (case executeBatch C ops st of
           (Inl e, st') \<Rightarrow> (Inl e, Some st') | (Inr u, st') \<Rightarrow> (Inr x, Some st'))
         = (Inl e, Some st))
   \<or> (\<exists>st'. executeBatch C ops st = (Inr (), st')
        \<and> (case executeBatch C ops st of
              (Inl e, st') \<Rightarrow> (Inl e, Some st') | (Inr u, st') \<Rightarrow> (Inr x, Some st'))
            = (Inr x, Some st'))"
  using executeBatch_cases[of C ops st] by auto

lemma update_ctx_one_batch:
  "(\<exists>e. update_ctx C L t inst ctx = (Inl e, ctx)) \<or>
   (\<exists>st instance lo st'. ctx = Some st \<and> inst = Some instance
      \<and> L st t ''update'' (getProp instance ''id'') = Inr lo
      \<and> executeBatch C [Some \<lparr>op_action = ''upsert'', op_tableName = t,
                               op_data = Single instance, op_id = VNull\<rparr>, lo] st = (Inr (), st')
      \<and> update_ctx C L t inst ctx = (Inr instance, Some st'))"
  unfolding update_ctx_def executeBatch_def
  by (auto split: option.splits sum.splits simp del: split_paired_Ex)

lemma del_ctx_one_batch:
  "(\<exists>e. del_ctx C L t inst ctx = (Inl e, ctx)) \<or>
   (\<exists>st instance lo st'. ctx = Some st \<and> inst = Some instance
      \<and> L st t ''delete'' (getProp instance ''id'') = Inr lo
      \<and> executeBatch C [Some \<lparr>op_action = ''delete'', op_tableName = t,
                               op_data = NoData, op_id = getProp instance ''id''\<rparr>, lo] st = (Inr (), st')
      \<and> del_ctx C L t inst ctx = (Inr (), Some st'))"
  unfolding del_ctx_def executeBatch_def
  by (auto split: option.splits sum.splits simp del: split_paired_Ex)

text \<open>
  \<^verbatim>\<open>update\<close> and \<^verbatim>\<open>del\<close> of the sync context either fail and leave the context as it was,
  or their effect on the store is that of one \<^verbatim>\<open>executeBatch\<close> of a list of two entries,
  the change of the data table and the logging operation. \<^verbatim>\<open>executeBatch\<close> runs the
  statements of all its entries as one transaction: it succeeds with all of them done in
  order, or fails with the store as it was; entries that are null are skipped.
\<close>

lemma update_del_one_batch:
  "((\<exists>e. update_ctx C L t inst ctx = (Inl e, ctx)) \<or>
    (\<exists>st instance lo st'. ctx = Some st \<and> inst = Some instance
       \<and> L st t ''update'' (getProp instance ''id'') = Inr lo
       \<and> executeBatch C [Some \<lparr>op_action = ''upsert'', op_tableName = t,
                                op_data = Single instance, op_id = VNull\<rparr>, lo] st = (Inr (), st')
       \<and> update_ctx C L t inst ctx = (Inr instance, Some st')))
   \<and> ((\<exists>e. del_ctx C L t inst ctx = (Inl e, ctx)) \<or>
    (\<exists>st instance lo st'. ctx = Some st \<and> inst = Some instance
       \<and> L st t ''delete'' (getProp instance ''id'') = Inr lo
       \<and> executeBatch C [Some \<lparr>op_action = ''delete'', op_tableName = t,
                                op_data = NoData, op_id = getProp instance ''id''\<rparr>, lo] st = (Inr (), st')
       \<and> del_ctx C L t inst ctx = (Inr (), Some st')))
   \<and> executeBatch C ops s =
        (case batchStatements C (tableDefinitions s) ops of
           Inl e \<Rightarrow> (Inl e, s)
         | Inr stmts \<Rightarrow>
             (case executeAll stmts (db s) of
                Inl e \<Rightarrow> (Inl e, s)
              | Inr db' \<Rightarrow> (Inr (), s\<lparr>db := db'\<rparr>)))
   \<and> executeBatch C (filter (\<lambda>x. x \<noteq> None) ops) s = executeBatch C ops s
   \<and> (\<forall>e s'. executeBatch C ops s = (Inl e, s') \<longrightarrow> s' = s)"
proof (intro conjI allI impI)
  show "executeBatch C (filter (\<lambda>x. x \<noteq> None) ops) s = executeBatch C ops s"
    by (simp add: executeBatch_def batchStatements_nulls del: not_None_eq)
qed (rule update_ctx_one_batch del_ctx_one_batch executeBatch_unfold
      executeBatch_failure; assumption?)+

lemma update_ctx_example:
  "update_ctx plainCodec sampleLog ''t'' (Some [(''id'', VStr ''a''), (''v'', VInt 5)])
      (Some (syncStore [[VStr ''a'', VInt 1]] []))
   = (Inr [(''id'', VStr ''a''), (''v'', VInt 5)],
      Some (syncStore [[VStr ''a'', VInt 5]] [[VInt 1, VStr ''t'', VStr ''update'', VStr ''a'']]))"
  by (simp add: update_ctx_def sampleLog_def syncStore_def logColumns_def logDefinition_def
      store_defs engine_defs fun_upd_twist)

lemma del_ctx_example:
  "del_ctx plainCodec sampleLog ''t'' (Some [(''id'', VStr ''a'')])
      (Some (syncStore [[VStr ''a'', VInt 1]] []))
   = (Inr (), Some (syncStore [] [[VInt 1, VStr ''t'', VStr ''delete'', VStr ''a'']]))"
  by (simp add: del_ctx_def sampleLog_def syncStore_def logColumns_def logDefinition_def
      store_defs engine_defs fun_upd_twist)

lemma update_ctx_failure_example:
  "update_ctx plainCodec (\<lambda>st t a i. Inr (Some \<lparr>op_action = ''upsert'', op_tableName = ''missing'',
                 op_data = NoData, op_id = VNull\<rparr>)) ''t'' (Some [(''id'', VStr ''a''), (''v'', VInt 5)])
      (Some (syncStore [[VStr ''a'', VInt 1]] []))
   = (Inl (DefinitionNotFound ''missing''), Some (syncStore [[VStr ''a'', VInt 1]] []))"
  by (simp add: update_ctx_def syncStore_def logColumns_def logDefinition_def
      store_defs engine_defs)

text \<open>
  An update and a delete that write the data table and the operation log together, an
  update whose logging operation fails and which therefore writes nothing, and a batch
  with a null entry.
\<close>

lemma update_del_one_batch_example:
  "update_ctx plainCodec sampleLog ''t'' (Some [(''id'', VStr ''a''), (''v'', VInt 5)])
      (Some (syncStore [[VStr ''a'', VInt 1]] []))
     = (Inr [(''id'', VStr ''a''), (''v'', VInt 5)],
        Some (syncStore [[VStr ''a'', VInt 5]] [[VInt 1, VStr ''t'', VStr ''update'', VStr ''a'']]))
   \<and> del_ctx plainCodec sampleLog ''t'' (Some [(''id'', VStr ''a'')])
      (Some (syncStore [[VStr ''a'', VInt 1]] []))
     = (Inr (), Some (syncStore [] [[VInt 1, VStr ''t'', VStr ''delete'', VStr ''a'']]))
   \<and> update_ctx plainCodec
        (\<lambda>st t a i. Inr (Some \<lparr>op_action = ''upsert'', op_tableName = ''missing'',
                                 op_data = NoData, op_id = VNull\<rparr>))
        ''t'' (Some [(''id'', VStr ''a''), (''v'', VInt 5)])
        (Some (syncStore [[VStr ''a'', VInt 1]] []))
     = (Inl (DefinitionNotFound ''missing''), Some (syncStore [[VStr ''a'', VInt 1]] []))
   \<and> executeBatch plainCodec
        (filter (\<lambda>x. x \<noteq> None)
           [None, Some \<lparr>op_action = ''delete'', op_tableName = ''t'', op_data = NoData,
                         op_id = VStr ''a''\<rparr>])
        (syncStore [[VStr ''a'', VInt 1]] [])
     = executeBatch plainCodec
        [None, Some \<lparr>op_action = ''delete'', op_tableName = ''t'', op_data = NoData,
                      op_id = VStr ''a''\<rparr>]
        (syncStore [[VStr ''a'', VInt 1]] [])"
proof -
  note T = update_del_one_batch[where C=plainCodec and s="syncStore [[VStr ''a'', VInt 1]] []"
      and ops="[None, Some \<lparr>op_action = ''delete'', op_tableName = ''t'', op_data = NoData,
                      op_id = VStr ''a''\<rparr>]"]
  show ?thesis
    by (intro conjI update_ctx_example del_ctx_example update_ctx_failure_example
        T[THEN conjunct2, THEN conjunct2, THEN conjunct2, THEN conjunct1])
qed

text \<open>
  The lookup without \<^verbatim>\<open>suppressRecordNotFoundError\<close> never gives the absent value, so
  \<^verbatim>\<open>insert\<close> never gets as far as its batch.
\<close>

lemma insert_ctx_never_succeeds: "fst (insert_ctx C L t inst ctx) \<noteq> Inr x"
  using lookup_never_absent
  by (auto simp: insert_ctx_def split: option.splits sum.splits)

lemma insert_ctx_rejects: "\<exists>e. insert_ctx C L t inst ctx = (Inl e, ctx)"
  using lookup_never_absent[of C t]
  by (auto simp: insert_ctx_def split: option.splits sum.splits)

lemma update_ctx_absent:
  assumes "\<And>tb. db st t = Some tb \<Longrightarrow> matching tb (getProp inst ''id'') = []"
  shows "\<exists>e. update_ctx C L t (Some inst) (Some st) = (Inl e, Some st)"
  using lookup_absent[of st t "getProp inst ''id''" C, OF assms]
  by (auto simp: update_ctx_def)

text \<open>
  C4. An \<^verbatim>\<open>insert\<close> of a record whose id is in the table and an \<^verbatim>\<open>update\<close> of a record whose
  id is not in the table are rejected, and leave the data table and the operation log as
  they were. (An id is in the table when the lookup of the store finds it.) With valid
  arguments on a defined table the errors are: for the insert, the one raised where the
  message is built; for the update, the \<^verbatim>\<open>not found\<close> error of the lookup.
\<close>

theorem precondition_failures:
  "(\<forall>tb. db st t = Some tb \<and> matching tb (getProp inst ''id'') \<noteq> [] \<longrightarrow>
      (\<exists>e. insert_ctx C L t (Some inst) (Some st) = (Inl e, Some st)))
   \<and> ((\<forall>tb. db st t = Some tb \<longrightarrow> matching tb (getProp inst ''id'') = []) \<longrightarrow>
      (\<exists>e. update_ctx C L t (Some inst) (Some st) = (Inl e, Some st)))
   \<and> (\<forall>tdef tb rcd.
        t \<noteq> [] \<and> isValidId (getProp inst ''id'')
        \<and> getTableDefinition (tableDefinitions st) t = Some tdef
        \<and> db st t = Some tb \<and> hasColumn (tcolumns tb) idPropertyName \<longrightarrow>
        (matching tb (getProp inst ''id'') \<noteq> []
           \<and> deserialize C (toRecord (tcolumns tb) (hd (matching tb (getProp inst ''id''))))
                (def_columns tdef) = Inr rcd \<longrightarrow>
           insert_ctx C L t (Some inst) (Some st) = (Inl ReferenceError, Some st))
      \<and> (matching tb (getProp inst ''id'') = [] \<longrightarrow>
           update_ctx C L t (Some inst) (Some st)
             = (Inl (ItemNotFound (getProp inst ''id'')), Some st)))"
proof (intro conjI allI impI)
  fix tb assume "db st t = Some tb \<and> matching tb (getProp inst ''id'') \<noteq> []"
  show "\<exists>e. insert_ctx C L t (Some inst) (Some st) = (Inl e, Some st)"
    by (rule insert_ctx_rejects)
next
  assume "\<forall>tb. db st t = Some tb \<longrightarrow> matching tb (getProp inst ''id'') = []"
  then show "\<exists>e. update_ctx C L t (Some inst) (Some st) = (Inl e, Some st)"
    by (intro update_ctx_absent) simp
next
  fix tdef tb rcd
  assume a: "t \<noteq> [] \<and> isValidId (getProp inst ''id'')
        \<and> getTableDefinition (tableDefinitions st) t = Some tdef
        \<and> db st t = Some tb \<and> hasColumn (tcolumns tb) idPropertyName"
  assume b: "matching tb (getProp inst ''id'') \<noteq> []
           \<and> deserialize C (toRecord (tcolumns tb) (hd (matching tb (getProp inst ''id''))))
                (def_columns tdef) = Inr rcd"
  then obtain row rest where m: "matching tb (getProp inst ''id'') = row # rest"
    by (cases "matching tb (getProp inst ''id'')") auto
  with a b have "lookup C t (getProp inst ''id'') False st = Inr (Some rcd)"
    by (simp add: lookup_def selectById_matching)
  with a show "insert_ctx C L t (Some inst) (Some st) = (Inl ReferenceError, Some st)"
    by (simp add: insert_ctx_def)
next
  fix tdef tb rcd
  assume a: "t \<noteq> [] \<and> isValidId (getProp inst ''id'')
        \<and> getTableDefinition (tableDefinitions st) t = Some tdef
        \<and> db st t = Some tb \<and> hasColumn (tcolumns tb) idPropertyName"
  assume b: "matching tb (getProp inst ''id'') = []"
  with a have "lookup C t (getProp inst ''id'') False st = Inl (ItemNotFound (getProp inst ''id''))"
    by (simp add: lookup_def selectById_matching)
  with a show "update_ctx C L t (Some inst) (Some st)
             = (Inl (ItemNotFound (getProp inst ''id'')), Some st)"
    by (simp add: update_ctx_def)
qed

theorem precondition_failures_witness:
  "''t'' \<noteq> [] \<and> isValidId (getProp [(''id'', VStr ''A''), (''v'', VInt 3)] ''id'')
   \<and> isValidId (getProp [(''id'', VStr ''b''), (''v'', VInt 3)] ''id'')
   \<and> getTableDefinition (tableDefinitions (todoStore [[VStr ''a'', VInt 1]])) ''t'' = Some todoDefinition
   \<and> db (todoStore [[VStr ''a'', VInt 1]]) ''t'' = Some (todoTable [[VStr ''a'', VInt 1]])
   \<and> hasColumn (tcolumns (todoTable [[VStr ''a'', VInt 1]])) idPropertyName
   \<and> matching (todoTable [[VStr ''a'', VInt 1]]) (getProp [(''id'', VStr ''A''), (''v'', VInt 3)] ''id'')
        = [[VStr ''a'', VInt 1]]
   \<and> matching (todoTable [[VStr ''a'', VInt 1]]) (getProp [(''id'', VStr ''b''), (''v'', VInt 3)] ''id'') = []
   \<and> insert_ctx plainCodec sampleLog ''t'' (Some [(''id'', VStr ''A''), (''v'', VInt 3)])
        (Some (todoStore [[VStr ''a'', VInt 1]]))
       = (Inl ReferenceError, Some (todoStore [[VStr ''a'', VInt 1]]))
   \<and> update_ctx plainCodec sampleLog ''t'' (Some [(''id'', VStr ''b''), (''v'', VInt 3)])
        (Some (todoStore [[VStr ''a'', VInt 1]]))
       = (Inl (ItemNotFound (VStr ''b'')), Some (todoStore [[VStr ''a'', VInt 1]]))"
proof -
  let ?st = "todoStore [[VStr ''a'', VInt 1]]" and ?tb = "todoTable [[VStr ''a'', VInt 1]]"
  let ?A = "[(''id'', VStr ''A''), (''v'', VInt 3)]" and ?b = "[(''id'', VStr ''b''), (''v'', VInt 3)]"
  have h1: "''t'' \<noteq> []" by simp
  have gA: "getProp ?A ''id'' = VStr ''A''" and gb: "getProp ?b ''id'' = VStr ''b''"
    by (simp_all add: getProp_def)
  have vA: "isValidId (getProp ?A ''id'')" and vb: "isValidId (getProp ?b ''id'')"
    using valid_ids(2) valid_ids(3) by (simp_all only: gA gb)
  have mA: "matching ?tb (getProp ?A ''id'') = [[VStr ''a'', VInt 1]]"
    by (simp add: gA matching_def idOf_def todoTable_def todoColumns_def engine_defs)
  have mb: "matching ?tb (getProp ?b ''id'') = []"
    by (simp add: gb matching_def idOf_def todoTable_def todoColumns_def engine_defs)
  have dA: "matching ?tb (getProp ?A ''id'') \<noteq> []
     \<and> deserialize plainCodec (toRecord (tcolumns ?tb) (hd (matching ?tb (getProp ?A ''id''))))
          (def_columns todoDefinition) = Inr [(''id'', VStr ''a''), (''v'', VInt 1)]"
    unfolding mA by (simp add: plainCodec_def toRecord_def todoTable_def todoColumns_def)
  note TA = precondition_failures[where st="?st" and t="''t''" and inst="?A" and C=plainCodec
      and L=sampleLog, THEN conjunct2, THEN conjunct2, THEN spec, THEN spec, THEN spec, THEN mp,
      OF conjI[OF h1 conjI[OF vA conjI[OF todo_facts(1) conjI[OF todo_facts(2) todo_facts(3)]]]]]
  note Tb = precondition_failures[where st="?st" and t="''t''" and inst="?b" and C=plainCodec
      and L=sampleLog, THEN conjunct2, THEN conjunct2, THEN spec, THEN spec, THEN spec, THEN mp,
      OF conjI[OF h1 conjI[OF vb conjI[OF todo_facts(1) conjI[OF todo_facts(2) todo_facts(3)]]]]]
  note a = TA[THEN conjunct1, THEN mp, OF dA]
  from Tb[THEN conjunct2, THEN mp, OF mb]
  have b: "update_ctx plainCodec sampleLog ''t'' (Some ?b) (Some ?st)
       = (Inl (ItemNotFound (VStr ''b'')), Some ?st)"
    by (simp add: gb)
  show ?thesis
    by (intro conjI h1 vA vb todo_facts(1) todo_facts(2) todo_facts(3) mA mb a b)
qed

lemma defineTable_todo: "defineTable todoDefinition emptyStore = (Inr (), todoStore [])"
  by (simp add: defineTable_def validateTableDefinition_def todoDefinition_def emptyStore_def
      todoStore_def todoColumns_def createTable_def addTableDefinition_def engine_defs)

text \<open>
  C1. For an initialized sync context and a record with a valid id that is not in the
  table, \<^verbatim>\<open>insert\<close> should write the record with its operation-log entry and return it.
  On the store that has the empty table \<^verbatim>\<open>t\<close>, the insert of the record with id \<^verbatim>\<open>a\<close>
  and \<^verbatim>\<open>v = 1\<close> is rejected with the \<^verbatim>\<open>not found\<close> error of the lookup, and nothing is
  written.
\<close>

theorem insert_new_record_rejected:
  "insert_ctx plainCodec (\<lambda>st t a i. Inr None) ''t'' (Some [(''id'', VStr ''a''), (''v'', VInt 1)])
     (Some (snd (defineTable todoDefinition emptyStore)))
   = (Inl (ItemNotFound (VStr ''a'')), Some (snd (defineTable todoDefinition emptyStore)))"
  by (simp only: defineTable_todo snd_conv)
    (simp add: insert_ctx_def lookup_def getTableDefinition_def todoStore_def
      todoColumns_def plainCodec_def forbiddenIdChars_def isControl_def
      dquote_def backslash_def engine_defs)

text \<open>
  C2. Each of \<^verbatim>\<open>insert\<close>, \<^verbatim>\<open>update\<close> and \<^verbatim>\<open>del\<close> of the sync context should apply the change
  of the data table and its operation-log entry by one \<^verbatim>\<open>executeBatch\<close>, as one
  transaction. \<^verbatim>\<open>update\<close> and \<^verbatim>\<open>del\<close> do, by \<open>update_del_one_batch\<close>. \<^verbatim>\<open>insert\<close> has the
  call and never reaches it. On the store with the empty table \<^verbatim>\<open>t\<close> and the empty operation
  log: the batch of the record \<^verbatim>\<open>a\<close> and its logging operation writes the row and the log
  entry; \<^verbatim>\<open>insert\<close> of this record is rejected by the lookup and writes neither.
\<close>

theorem insert_reaches_no_batch:
  "sampleLog (syncStore [] []) ''t'' ''insert'' (VStr ''a'')
     = Inr (Some \<lparr>op_action = ''upsert'', op_tableName = ''__operations'',
                   op_data = Single [(''id'', VInt 1), (''tableName'', VStr ''t''),
                                     (''action'', VStr ''insert''), (''itemId'', VStr ''a'')],
                   op_id = VNull\<rparr>)
   \<and> executeBatch plainCodec
        [Some \<lparr>op_action = ''upsert'', op_tableName = ''t'',
                op_data = Single [(''id'', VStr ''a''), (''v'', VInt 1)], op_id = VNull\<rparr>,
         Some \<lparr>op_action = ''upsert'', op_tableName = ''__operations'',
                op_data = Single [(''id'', VInt 1), (''tableName'', VStr ''t''),
                                  (''action'', VStr ''insert''), (''itemId'', VStr ''a'')],
                op_id = VNull\<rparr>]
        (syncStore [] [])
     = (Inr (), syncStore [[VStr ''a'', VInt 1]] [[VInt 1, VStr ''t'', VStr ''insert'', VStr ''a'']])
   \<and> insert_ctx plainCodec sampleLog ''t'' (Some [(''id'', VStr ''a''), (''v'', VInt 1)])
        (Some (syncStore [] []))
     = (Inl (ItemNotFound (VStr ''a'')), Some (syncStore [] []))"
proof (intro conjI)
  show "sampleLog (syncStore [] []) ''t'' ''insert'' (VStr ''a'')
     = Inr (Some \<lparr>op_action = ''upsert'', op_tableName = ''__operations'',
                   op_data = Single [(''id'', VInt 1), (''tableName'', VStr ''t''),
                                     (''action'', VStr ''insert''), (''itemId'', VStr ''a'')],
                   op_id = VNull\<rparr>)"
    by (simp add: sampleLog_def)
  show "executeBatch plainCodec
        [Some \<lparr>op_action = ''upsert'', op_tableName = ''t'',
                op_data = Single [(''id'', VStr ''a''), (''v'', VInt 1)], op_id = VNull\<rparr>,
         Some \<lparr>op_action = ''upsert'', op_tableName = ''__operations'',
                op_data = Single [(''id'', VInt 1), (''tableName'', VStr ''t''),
                                  (''action'', VStr ''insert''), (''itemId'', VStr ''a'')],
                op_id = VNull\<rparr>]
        (syncStore [] [])
     = (Inr (), syncStore [[VStr ''a'', VInt 1]] [[VInt 1, VStr ''t'', VStr ''insert'', VStr ''a'']])"
    by (simp add: syncStore_def logColumns_def logDefinition_def store_defs engine_defs
        fun_upd_twist)
  show "insert_ctx plainCodec sampleLog ''t'' (Some [(''id'', VStr ''a''), (''v'', VInt 1)])
        (Some (syncStore [] []))
     = (Inl (ItemNotFound (VStr ''a'')), Some (syncStore [] []))"
    by (simp add: insert_ctx_def sampleLog_def syncStore_def logColumns_def logDefinition_def
        store_defs engine_defs)
qed

end
